theory Spec2Isabelle
  imports Main "HOL-Library.AList"
begin

section \<open>JavaScript values used by the services\<close>

text \<open>
  Optional properties, \<open>null\<close> and \<open>undefined\<close> are \<open>None\<close>.  Truthiness follows
  JavaScript: a string is truthy when it is present and not empty, a boolean when it is
  present and true, a number when it is present and not zero, an array whenever it is
  present.
\<close>

definition truthy_str :: "string option \<Rightarrow> bool" where
  "truthy_str s = (case s of None \<Rightarrow> False | Some v \<Rightarrow> v \<noteq> [])"

definition truthy_bool :: "bool option \<Rightarrow> bool" where
  "truthy_bool b = (case b of None \<Rightarrow> False | Some v \<Rightarrow> v)"

definition truthy_num :: "int option \<Rightarrow> bool" where
  "truthy_num n = (case n of None \<Rightarrow> False | Some v \<Rightarrow> v \<noteq> 0)"

definition truthy_arr :: "'a list option \<Rightarrow> bool" where
  "truthy_arr a = (case a of None \<Rightarrow> False | Some v \<Rightarrow> True)"

text \<open>\<open>String.prototype.toLowerCase\<close> and \<open>toUpperCase\<close>, on the ASCII letters.\<close>

definition lower_char :: "char \<Rightarrow> char" where
  "lower_char c =
     (let n = (of_char c :: nat) in if 65 \<le> n \<and> n \<le> 90 then char_of (n + 32) else c)"

definition upper_char :: "char \<Rightarrow> char" where
  "upper_char c =
     (let n = (of_char c :: nat) in if 97 \<le> n \<and> n \<le> 122 then char_of (n - 32) else c)"

definition toLowerCase :: "string \<Rightarrow> string" where
  "toLowerCase s = map lower_char s"

definition toUpperCase :: "string \<Rightarrow> string" where
  "toUpperCase s = map upper_char s"

text \<open>
  \<open>String(n)\<close> for a number that is an integer.  Below \<open>10\<^sup>2\<^sup>1\<close> in absolute value the text
  is the decimal digits, with a minus sign below zero; from there on JavaScript writes the
  number with an exponent, and that text is the parameter \<open>exponent_text\<close>.
\<close>

definition digit_char :: "nat \<Rightarrow> char" where
  "digit_char d = char_of (48 + d)"

function digits10 :: "nat \<Rightarrow> string" where
  "digits10 n = (if n < 10 then [digit_char n] else digits10 (n div 10) @ [digit_char (n mod 10)])"
  by pat_completeness auto
termination
  by (relation "measure id") auto

declare digits10.simps [simp del]

definition String_of_int :: "(int \<Rightarrow> string) \<Rightarrow> int \<Rightarrow> string" where
  "String_of_int exponent_text i =
     (if \<bar>i\<bar> < 10 ^ 21
      then (if i < 0 then CHR ''-'' # digits10 (nat (- i)) else digits10 (nat i))
      else exponent_text i)"

text \<open>The exceptions the code throws; their messages are left out.\<close>

datatype error =
    ReferenceError
  | TypeError
  | SyntaxError
  | BadRequestException
  | RecordNotFound

section \<open>Zendesk ticket mapper\<close>

text \<open>\<open>UnifiedCommentInput\<close>; dates are milliseconds since the epoch.\<close>

datatype creator_type = CreatorUser | CreatorContact

record unified_comment_input =
  uc_body :: string
  uc_html_body :: "string option"
  uc_is_private :: "bool option"
  uc_created_at :: nat
  uc_modified_at :: nat
  uc_creator_type :: "creator_type option"
  uc_ticket_id :: string
  uc_contact_id :: "string option"
  uc_user_id :: "string option"

text \<open>
  The properties of \<open>UnifiedTicketInput\<close> that \<open>desunify\<close> reads.  \<open>field_mappings\<close> is
  the object as \<open>Object.entries\<close> lists it.
\<close>

record unified_ticket_input =
  uti_name :: string
  uti_description :: string
  uti_comment :: "unified_comment_input option"
  uti_attachments :: "string list option"
  uti_assigned_to :: "string list option"
  uti_due_date :: "nat option"
  uti_priority :: "string option"
  uti_status :: "string option"
  uti_tags :: "string list option"
  uti_type :: "string option"
  uti_field_mappings :: "(string \<times> string) list option"

record custom_field_mapping =
  cfm_slug :: string
  cfm_remote_id :: string

record custom_field =
  cf_id :: string
  cf_value :: string

record zendesk_comment =
  zc_body :: "string option"
  zc_public :: bool
  zc_uploads :: "string list"
  zc_html_body :: "string option"

record zendesk_ticket_input =
  zti_description :: string
  zti_subject :: string
  zti_comment :: zendesk_comment
  zti_assignee_email :: "string option"
  zti_due_at :: "string option"
  zti_priority :: "string option"
  zti_status :: "string option"
  zti_tags :: "string list option"
  zti_type :: "string option"
  zti_custom_fields :: "custom_field list option"

text \<open>
  The loop of \<open>desunify\<close> over \<open>Object.entries(source.field_mappings)\<close>: an entry whose key
  is the slug of a mapping adds \<open>{id: mapping.remote_id, value: v}\<close>.
\<close>

fun desunify_custom_fields ::
  "custom_field_mapping list \<Rightarrow> (string \<times> string) list \<Rightarrow> custom_field list \<Rightarrow> custom_field list"
where
  "desunify_custom_fields ms [] res = res"
| "desunify_custom_fields ms ((k, v) # es) res =
     (case find (\<lambda>m. cfm_slug m = k) ms of
        Some m \<Rightarrow> desunify_custom_fields ms es (res @ [\<lparr>cf_id = cfm_remote_id m, cf_value = v\<rparr>])
      | None \<Rightarrow> desunify_custom_fields ms es res)"

text \<open>
  \<open>ZendeskTicketMapper.desunify\<close>.  \<open>getAssigneeMetadataFromUuid\<close> (of \<open>Utils\<close>) and
  \<open>Date.prototype.toISOString\<close> are parameters.  Reading \<open>source.comment.body\<close> of a ticket
  without a comment is a \<open>TypeError\<close>.
\<close>

definition desunify ::
  "(string \<Rightarrow> string option) \<Rightarrow> (nat \<Rightarrow> string) \<Rightarrow> unified_ticket_input \<Rightarrow>
   custom_field_mapping list option \<Rightarrow> error + zendesk_ticket_input"
where
  "desunify getAssigneeMetadataFromUuid toISOString source customFieldMappings =
     (case uti_comment source of
        None \<Rightarrow> Inl TypeError
      | Some comment \<Rightarrow>
          let result = \<lparr>
                zti_description = uti_description source,
                zti_subject = uti_name source,
                zti_comment = \<lparr>
                  zc_body = (if uc_body comment \<noteq> [] then Some (uc_body comment) else None),
                  zc_public = ((\<not> truthy_bool (uc_is_private comment)) \<or> True),
                  zc_uploads = (case uti_attachments source of Some a \<Rightarrow> a | None \<Rightarrow> []),
                  zc_html_body = None\<rparr>,
                zti_assignee_email = None, zti_due_at = None, zti_priority = None,
                zti_status = None, zti_tags = None, zti_type = None,
                zti_custom_fields = None\<rparr>;
              result = (if truthy_str (uc_html_body comment)
                        then result\<lparr>zti_comment := (zti_comment result)\<lparr>zc_html_body := uc_html_body comment\<rparr>\<rparr>
                        else result);
              result = (case uti_assigned_to source of
                          Some (a # as) \<Rightarrow> result\<lparr>zti_assignee_email := getAssigneeMetadataFromUuid a\<rparr>
                        | _ \<Rightarrow> result);
              result = (case uti_due_date source of
                          Some d \<Rightarrow> result\<lparr>zti_due_at := Some (toISOString d)\<rparr>
                        | None \<Rightarrow> result);
              result = (if truthy_str (uti_priority source)
                        then result\<lparr>zti_priority :=
                               Some (if the (uti_priority source) = ''MEDIUM'' then ''normal''
                                     else toLowerCase (the (uti_priority source)))\<rparr>
                        else result);
              result = (if truthy_str (uti_status source)
                        then result\<lparr>zti_status := Some (toLowerCase (the (uti_status source)))\<rparr>
                        else result);
              result = (if truthy_arr (uti_tags source)
                        then result\<lparr>zti_tags := uti_tags source\<rparr>
                        else result);
              result = (if truthy_str (uti_type source)
                        then result\<lparr>zti_type := Some (toLowerCase (the (uti_type source)))\<rparr>
                        else result);
              result = (case (customFieldMappings, uti_field_mappings source) of
                          (Some ms, Some fm) \<Rightarrow>
                            result\<lparr>zti_custom_fields := Some (desunify_custom_fields ms fm [])\<rparr>
                        | _ \<Rightarrow> result)
          in Inr result)"


text \<open>The properties of \<open>ZendeskTicketOutput\<close> that the mapper reads.\<close>

record zendesk_ticket_output =
  zto_id :: int
  zto_subject :: string
  zto_status :: string
  zto_description :: string
  zto_due_at :: "string option"
  zto_updated_at :: string
  zto_priority :: "string option"
  zto_assignee_id :: "int option"
  zto_type :: "string option"
  zto_tags :: "string list option"
  zto_custom_fields :: "custom_field list option"

text \<open>The local variable \<open>opts\<close>: \<open>undefined\<close> at first, then an object literal.\<close>

record 'tag ticket_opts =
  o_assigned_to :: "string list option"
  o_type :: "string option"
  o_tags :: "'tag list option"

record 'tag unified_ticket_output =
  uto_remote_id :: string
  uto_name :: string
  uto_status :: string
  uto_description :: string
  uto_due_date :: "nat option"
  uto_parent_ticket :: "string option"
  uto_completed_at :: nat
  uto_priority :: "string option"
  uto_field_mappings :: "(string \<times> string) list"
  uto_assigned_to :: "string list option"
  uto_type :: "string option"
  uto_tags :: "'tag list option"

text \<open>
  The loop over \<open>customFieldMappings\<close>: \<open>field_mappings[mapping.slug] = customField.value\<close>
  for the first custom field of the ticket whose id is the mapping's \<open>remote_id\<close>.
\<close>

fun unify_field_mappings ::
  "custom_field list \<Rightarrow> custom_field_mapping list \<Rightarrow> (string \<times> string) list \<Rightarrow> (string \<times> string) list"
where
  "unify_field_mappings cfs [] fm = fm"
| "unify_field_mappings cfs (m # ms) fm =
     (case find (\<lambda>f. cf_id f = cfm_remote_id m) cfs of
        Some f \<Rightarrow> unify_field_mappings cfs ms (AList.update (cfm_slug m) (cf_value f) fm)
      | None \<Rightarrow> unify_field_mappings cfs ms fm)"

text \<open>
  \<open>ZendeskTicketMapper.mapSingleTicketToUnified\<close>, in the order of the source: the
  field mappings, the local variable \<open>opts\<close>, the unified ticket.  Parameters:
  \<open>getUserUuidFromRemoteId\<close> (of \<open>Utils\<close>), the unification of the tags by
  \<open>CoreUnification.unify\<close>, the \<open>Date\<close> constructor on a string, and the text of a
  number that \<open>String\<close> writes with an exponent.
  \<open>ticket.custom_fields.find\<close> on a ticket without custom fields is a \<open>TypeError\<close>.
\<close>

definition ticket_field_mappings ::
  "zendesk_ticket_output \<Rightarrow> custom_field_mapping list option \<Rightarrow> error + (string \<times> string) list"
where
  "ticket_field_mappings ticket customFieldMappings =
     (case customFieldMappings of
        None \<Rightarrow> Inr []
      | Some [] \<Rightarrow> Inr []
      | Some ms \<Rightarrow>
          (case zto_custom_fields ticket of
             None \<Rightarrow> Inl TypeError
           | Some cfs \<Rightarrow> Inr (unify_field_mappings cfs ms [])))"

definition ticket_opts ::
  "(string \<Rightarrow> string \<Rightarrow> string option) \<Rightarrow> (string list \<Rightarrow> string \<Rightarrow> 'tag list) \<Rightarrow>
   (int \<Rightarrow> string) \<Rightarrow> zendesk_ticket_output \<Rightarrow> string \<Rightarrow> 'tag ticket_opts option"
where
  "ticket_opts getUserUuidFromRemoteId unify_tags exponent_text ticket connectionId =
     (let opts = None;
          opts = (if truthy_num (zto_assignee_id ticket)
                  then (let user_id = getUserUuidFromRemoteId
                                        (String_of_int exponent_text (the (zto_assignee_id ticket)))
                                        connectionId
                        in if truthy_str user_id
                           then Some \<lparr>o_assigned_to = Some [the user_id], o_type = None, o_tags = None\<rparr>
                           else opts)
                  else opts);
          opts = (if truthy_str (zto_type ticket)
                  then Some \<lparr>o_assigned_to = None,
                             o_type = Some (if the (zto_type ticket) = ''incident'' then ''PROBLEM''
                                            else toUpperCase (the (zto_type ticket))),
                             o_tags = None\<rparr>
                  else opts);
          opts = (if truthy_arr (zto_tags ticket)
                  then Some \<lparr>o_assigned_to = None, o_type = None,
                             o_tags = Some (unify_tags (the (zto_tags ticket)) connectionId)\<rparr>
                  else opts)
      in opts)"

definition mapSingleTicketToUnified ::
  "(string \<Rightarrow> string \<Rightarrow> string option) \<Rightarrow> (string list \<Rightarrow> string \<Rightarrow> 'tag list) \<Rightarrow>
   (string \<Rightarrow> nat) \<Rightarrow> (int \<Rightarrow> string) \<Rightarrow> zendesk_ticket_output \<Rightarrow> string \<Rightarrow>
   custom_field_mapping list option \<Rightarrow> error + 'tag unified_ticket_output"
where
  "mapSingleTicketToUnified getUserUuidFromRemoteId unify_tags Date_of_string exponent_text ticket
       connectionId customFieldMappings =
     (case ticket_field_mappings ticket customFieldMappings of
        Inl e \<Rightarrow> Inl e
      | Inr field_mappings \<Rightarrow>
          let opts = ticket_opts getUserUuidFromRemoteId unify_tags exponent_text ticket
                       connectionId
          in Inr \<lparr>
               uto_remote_id = String_of_int exponent_text (zto_id ticket),
               uto_name = zto_subject ticket,
               uto_status = (if zto_status ticket = ''new'' \<or> zto_status ticket = ''open''
                             then ''OPEN'' else ''CLOSED''),
               uto_description = zto_description ticket,
               uto_due_date = (if truthy_str (zto_due_at ticket)
                               then Some (Date_of_string (the (zto_due_at ticket))) else None),
               uto_parent_ticket = None,
               uto_completed_at = Date_of_string (zto_updated_at ticket),
               uto_priority = zto_priority ticket,
               uto_field_mappings = field_mappings,
               uto_assigned_to = (case opts of None \<Rightarrow> None | Some p \<Rightarrow> o_assigned_to p),
               uto_type = (case opts of None \<Rightarrow> None | Some p \<Rightarrow> o_type p),
               uto_tags = (case opts of None \<Rightarrow> None | Some p \<Rightarrow> o_tags p)\<rparr>)"

section \<open>The database\<close>

text \<open>
  The tables the services reach through Prisma, with the columns they read or write.  A
  table is the list of its rows in insertion order; a nullable column is an option.
  Timestamps are milliseconds since the epoch.
\<close>

record user =
  u_id_user :: string
  u_email :: string
  u_first_name :: string
  u_last_name :: string
  u_password_hash :: string
  u_reset_token :: "string option"
  u_reset_token_expiry :: "nat option"

record project =
  p_id_project :: string
  p_id_user :: string

record linked_user =
  lu_id_linked_user :: string
  lu_id_project :: string

record connection =
  cn_id_connection :: string
  cn_id_linked_user :: string
  cn_provider_slug :: string
  cn_vertical :: string

record fs_group =
  id_fs_group :: string
  g_name :: "string option"
  g_users :: "string list option"
  g_remote_was_deleted :: "bool option"
  g_remote_id :: "string option"
  g_id_connection :: string
  g_created_at :: nat
  g_modified_at :: nat

record entity_row =
  id_entity :: string
  e_ressource_owner_id :: string

record attribute_row =
  id_attribute :: string
  a_slug :: string
  a_source :: string
  a_id_consumer :: string

record value_row =
  id_value :: string
  v_data :: string
  v_id_attribute :: string
  v_id_entity :: string

record remote_data_row =
  id_remote_data :: string
  rd_ressource_owner_id :: string
  rd_format :: string
  rd_data :: "string option"
  rd_created_at :: nat

record event_row =
  id_event :: string
  ev_status :: string
  ev_type :: string
  ev_method :: string
  ev_url :: string
  ev_provider :: string
  ev_direction :: string
  ev_timestamp :: nat
  ev_id_linked_user :: string

text \<open>A call of \<open>WebhookService.handleWebhook\<close>, as the log of emitted webhooks keeps it.\<close>

record webhook_call =
  wh_payload :: "fs_group list"
  wh_type :: string
  wh_id_project :: string
  wh_id_event :: string

record ats_interview =
  id_ats_interview :: string
  i_status :: "string option"
  i_id_ats_application :: "string option"
  i_id_ats_job_interview_stage :: "string option"
  i_organized_by :: "string option"
  i_interviewers :: "string list"
  i_location :: "string option"
  i_start_at :: "nat option"
  i_end_at :: "nat option"
  i_remote_created_at :: "nat option"
  i_remote_updated_at :: "nat option"
  i_remote_id :: "string option"
  i_created_at :: nat
  i_modified_at :: nat
  i_id_connection :: string

record ats_candidate_attachment =
  id_ats_candidate_attachment :: string
  id_ats_attachment :: "string option"
  at_remote_id :: "string option"
  at_id_connection :: string
  at_file_url :: "string option"
  at_file_name :: "string option"
  at_file_type :: "string option"
  at_remote_created_at :: "nat option"
  at_remote_modified_at :: "nat option"
  at_candidate_id :: "string option"
  at_created_at :: nat
  at_modified_at :: nat

text \<open>
  The state: the tables, the log of emitted webhooks, and the two sources of values the
  code takes from its environment.  \<open>uuidv4()\<close> returns the next element of
  \<open>uuid_stream\<close>, \<open>new Date()\<close> the next element of \<open>date_stream\<close>.
\<close>

record db =
  users :: "user list"
  projects :: "project list"
  linked_users :: "linked_user list"
  connections :: "connection list"
  fs_groups :: "fs_group list"
  ats_candidate_attachments :: "ats_candidate_attachment list"
  ats_interviews :: "ats_interview list"
  entity :: "entity_row list"
  attribute :: "attribute_row list"
  value_rows :: "value_row list"
  remote_data :: "remote_data_row list"
  events :: "event_row list"
  webhooks :: "webhook_call list"
  uuid_stream :: "nat \<Rightarrow> string"
  uuid_next :: nat
  date_stream :: "nat \<Rightarrow> nat"
  date_next :: nat

definition uuidv4 :: "db \<Rightarrow> string \<times> db" where
  "uuidv4 s = (uuid_stream s (uuid_next s), s\<lparr>uuid_next := Suc (uuid_next s)\<rparr>)"

definition new_Date :: "db \<Rightarrow> nat \<times> db" where
  "new_Date s = (date_stream s (date_next s), s\<lparr>date_next := Suc (date_next s)\<rparr>)"

text \<open>
  Prisma's \<open>findFirst\<close> is \<^const>\<open>find\<close>, \<open>findMany\<close> is \<^const>\<open>filter\<close>, \<open>create\<close>
  appends a row.  \<open>update\<close> takes a unique selector: it rewrites the first row that
  satisfies it and returns the rewritten row, and fails when there is none.
\<close>

fun update_first :: "('a \<Rightarrow> bool) \<Rightarrow> ('a \<Rightarrow> 'a) \<Rightarrow> 'a list \<Rightarrow> 'a list" where
  "update_first P f [] = []"
| "update_first P f (x # xs) = (if P x then f x # xs else x # update_first P f xs)"

definition prisma_update :: "('a \<Rightarrow> bool) \<Rightarrow> ('a \<Rightarrow> 'a) \<Rightarrow> 'a list \<Rightarrow> error + ('a \<times> 'a list)" where
  "prisma_update P f rows =
     (case find P rows of
        None \<Rightarrow> Inl RecordNotFound
      | Some r \<Rightarrow> Inr (f r, update_first P f rows))"

section \<open>Password reset\<close>

text \<open>
  \<open>AuthService.resetPassword\<close>.  \<open>bcrypt.hash\<close> is a parameter.  The \<open>where\<close> object is
  built first, so the clock is read before the table.
\<close>

definition token_valid :: "string \<Rightarrow> nat \<Rightarrow> user \<Rightarrow> bool" where
  "token_valid token now u =
     (u_reset_token u = Some token
      \<and> (case u_reset_token_expiry u of None \<Rightarrow> False | Some e \<Rightarrow> now < e))"

definition resetPassword ::
  "(string \<Rightarrow> nat \<Rightarrow> string) \<Rightarrow> string \<Rightarrow> string \<Rightarrow> db \<Rightarrow> (error + string) \<times> db"
where
  "resetPassword bcrypt_hash token newPassword s0 =
     (let (now, s) = new_Date s0 in
      case find (token_valid token now) (users s) of
        None \<Rightarrow> (Inl BadRequestException, s)
      | Some user \<Rightarrow>
          let hashedPassword = bcrypt_hash newPassword 10 in
          (case prisma_update (\<lambda>u. u_id_user u = u_id_user user)
                  (\<lambda>u. u\<lparr>u_password_hash := hashedPassword, u_reset_token := None,
                          u_reset_token_expiry := None\<rparr>) (users s) of
             Inl e \<Rightarrow> (Inl e, s)
           | Inr (res, users') \<Rightarrow> (Inr ''Password reset successful'', s\<lparr>users := users'\<rparr>)))"

section \<open>Action service and interview update\<close>

text \<open>
  The three methods of \<open>ActionService\<close> and \<open>InterviewService.updateInterview\<close> consist
  of \<open>return;\<close>: the promise resolves to \<open>undefined\<close> (\<open>None\<close>) and no table is touched.
  The unified action types are type parameters.
\<close>

definition addAction ::
  "'action_input \<Rightarrow> string \<Rightarrow> string \<Rightarrow> string \<Rightarrow> bool option \<Rightarrow> db \<Rightarrow> 'action_output option \<times> db"
where
  "addAction unifiedActionData connectionId integrationId linkedUserId remote_data_flag s = (None, s)"

definition getAction :: "string \<Rightarrow> bool option \<Rightarrow> db \<Rightarrow> 'action_output option \<times> db" where
  "getAction id_actioning_action remote_data_flag s = (None, s)"

definition getActions ::
  "string \<Rightarrow> string \<Rightarrow> string \<Rightarrow> nat \<Rightarrow> bool option \<Rightarrow> string option \<Rightarrow> db \<Rightarrow>
   'action_output list option \<times> db"
where
  "getActions connection_id integrationId linkedUserId limit remote_data_flag cursor s = (None, s)"

section \<open>Interview service\<close>

record unified_interview_output =
  uio_id :: string
  uio_status :: "string option"
  uio_application_id :: "string option"
  uio_job_interview_stage_id :: "string option"
  uio_organized_by :: "string option"
  uio_interviewers :: "string list"
  uio_location :: "string option"
  uio_start_at :: string
  uio_end_at :: string
  uio_remote_created_at :: string
  uio_remote_updated_at :: string
  uio_field_mappings :: "(string \<times> string) list"
  uio_remote_id :: "string option"
  uio_created_at :: nat
  uio_modified_at :: nat
  uio_remote_data :: "string option"

definition updateInterview ::
  "string \<Rightarrow> 'interview_input \<Rightarrow> db \<Rightarrow> unified_interview_output option \<times> db"
where
  "updateInterview ident updateInterviewData s = (None, s)"

text \<open>
  \<open>Buffer.from(s).toString('base64')\<close>: three bytes give four characters of the
  alphabet, and the last group is padded with \<open>=\<close>.
\<close>

definition b64_char :: "nat \<Rightarrow> char" where
  "b64_char n =
     (''ABCDEFGHIJKLMNOPQRSTUVWXYZabcdefghijklmnopqrstuvwxyz0123456789+/'') ! (n mod 64)"

fun base64_bytes :: "nat list \<Rightarrow> string" where
  "base64_bytes [] = []"
| "base64_bytes [a] = [b64_char (a div 4), b64_char ((a mod 4) * 16), CHR ''='', CHR ''='']"
| "base64_bytes [a, b] =
     [b64_char (a div 4), b64_char ((a mod 4) * 16 + b div 16), b64_char ((b mod 16) * 4),
      CHR ''='']"
| "base64_bytes (a # b # c # rest) =
     [b64_char (a div 4), b64_char ((a mod 4) * 16 + b div 16),
      b64_char ((b mod 16) * 4 + c div 64), b64_char (c mod 64)] @ base64_bytes rest"

definition base64 :: "string \<Rightarrow> string" where
  "base64 s = base64_bytes (map of_char s)"

text \<open>
  The field mappings of a resource: the values whose entity belongs to it, each with its
  attribute included; \<open>Map.set\<close> keeps the position of a slug already present.  Reading
  \<open>value.attribute.slug\<close> of a value without attribute is a \<open>TypeError\<close>.
\<close>

definition values_of_owner :: "db \<Rightarrow> string \<Rightarrow> value_row list" where
  "values_of_owner s owner =
     filter (\<lambda>v. \<exists>e \<in> set (entity s). id_entity e = v_id_entity v \<and> e_ressource_owner_id e = owner)
       (value_rows s)"

fun fieldMappingsMap :: "db \<Rightarrow> value_row list \<Rightarrow> (string \<times> string) list \<Rightarrow> error + (string \<times> string) list" where
  "fieldMappingsMap s [] m = Inr m"
| "fieldMappingsMap s (v # vs) m =
     (case find (\<lambda>a. id_attribute a = v_id_attribute v) (attribute s) of
        None \<Rightarrow> Inl TypeError
      | Some a \<Rightarrow> fieldMappingsMap s vs (AList.update (a_slug a) (v_data v) m))"

text \<open>\<open>String(d)\<close> for a nullable date; the text of a date is a parameter.\<close>

definition String_of_date :: "(nat \<Rightarrow> string) \<Rightarrow> nat option \<Rightarrow> string" where
  "String_of_date date_text d = (case d of None \<Rightarrow> ''null'' | Some t \<Rightarrow> date_text t)"

definition unify_interview ::
  "(nat \<Rightarrow> string) \<Rightarrow> db \<Rightarrow> ats_interview \<Rightarrow> error + unified_interview_output"
where
  "unify_interview date_text s interview =
     (case fieldMappingsMap s (values_of_owner s (id_ats_interview interview)) [] of
        Inl e \<Rightarrow> Inl e
      | Inr field_mappings \<Rightarrow> Inr \<lparr>
          uio_id = id_ats_interview interview,
          uio_status = i_status interview,
          uio_application_id = i_id_ats_application interview,
          uio_job_interview_stage_id = i_id_ats_job_interview_stage interview,
          uio_organized_by = i_organized_by interview,
          uio_interviewers = i_interviewers interview,
          uio_location = i_location interview,
          uio_start_at = String_of_date date_text (i_start_at interview),
          uio_end_at = String_of_date date_text (i_end_at interview),
          uio_remote_created_at = String_of_date date_text (i_remote_created_at interview),
          uio_remote_updated_at = String_of_date date_text (i_remote_updated_at interview),
          uio_field_mappings = field_mappings,
          uio_remote_id = i_remote_id interview,
          uio_created_at = i_created_at interview,
          uio_modified_at = i_modified_at interview,
          uio_remote_data = None\<rparr>)"

text \<open>\<open>Promise.all(xs.map(f))\<close>: the results in order, or the first rejection.\<close>

fun map_all :: "('a \<Rightarrow> error + 'b) \<Rightarrow> 'a list \<Rightarrow> error + 'b list" where
  "map_all f [] = Inr []"
| "map_all f (x # xs) =
     (case f x of
        Inl e \<Rightarrow> Inl e
      | Inr y \<Rightarrow> (case map_all f xs of Inl e \<Rightarrow> Inl e | Inr ys \<Rightarrow> Inr (y # ys)))"

text \<open>
  The \<open>remote_data\<close> branch: \<open>resp.data\<close> of a resource without remote data row is a
  \<open>TypeError\<close>, and \<open>JSON.parse\<close> of a text that is not JSON is a \<open>SyntaxError\<close>; which
  texts are JSON is the parameter \<open>JSON_valid\<close>.  \<open>JSON.parse(null)\<close> is \<open>null\<close>.  The
  parsed JSON is kept as its text.
\<close>

definition with_remote_data ::
  "(string \<Rightarrow> bool) \<Rightarrow> db \<Rightarrow> unified_interview_output \<Rightarrow> error + unified_interview_output"
where
  "with_remote_data JSON_valid s interview =
     (case find (\<lambda>r. rd_ressource_owner_id r = uio_id interview) (remote_data s) of
        None \<Rightarrow> Inl TypeError
      | Some resp \<Rightarrow>
          (case rd_data resp of
             None \<Rightarrow> Inr (interview\<lparr>uio_remote_data := None\<rparr>)
           | Some d \<Rightarrow>
               if JSON_valid d then Inr (interview\<lparr>uio_remote_data := Some d\<rparr>)
               else Inl SyntaxError))"

text \<open>
  Prisma's \<open>findMany\<close> with \<open>where\<close>, \<open>orderBy: {created_at: 'asc'}\<close>, \<open>cursor\<close> and
  \<open>take\<close>, over the rows of the connection in ascending order of \<open>created_at\<close> (rows of
  equal \<open>created_at\<close> in table order).  With a \<open>take\<close> that is not negative the result
  is the rows from the one the cursor names onward, at most \<open>take\<close> of them.  With a
  negative \<open>take\<close> Prisma pages backward: the result is the last \<open>-take\<close> rows of those up
  to and including the row the cursor names (of all rows, without a cursor), still in
  ascending order.
\<close>

definition ordered_interviews :: "db \<Rightarrow> string \<Rightarrow> ats_interview list" where
  "ordered_interviews s connection_id =
     sort_key i_created_at (filter (\<lambda>r. i_id_connection r = connection_id) (ats_interviews s))"

definition interviews_from :: "db \<Rightarrow> string \<Rightarrow> string option \<Rightarrow> ats_interview list" where
  "interviews_from s connection_id cursor =
     (let ordered = ordered_interviews s connection_id
      in if truthy_str cursor
         then dropWhile (\<lambda>r. id_ats_interview r \<noteq> the cursor) ordered
         else ordered)"

definition interviews_upto :: "db \<Rightarrow> string \<Rightarrow> string option \<Rightarrow> ats_interview list" where
  "interviews_upto s connection_id cursor =
     (let ordered = ordered_interviews s connection_id
      in if truthy_str cursor
         then takeWhile (\<lambda>r. id_ats_interview r \<noteq> the cursor) ordered
              @ take 1 (dropWhile (\<lambda>r. id_ats_interview r \<noteq> the cursor) ordered)
         else ordered)"

definition findMany_interviews :: "db \<Rightarrow> string \<Rightarrow> string option \<Rightarrow> int \<Rightarrow> ats_interview list" where
  "findMany_interviews s connection_id cursor n =
     (if 0 \<le> n then take (nat n) (interviews_from s connection_id cursor)
      else let rows = interviews_upto s connection_id cursor
           in drop (length rows - nat (- n)) rows)"

record interviews_page =
  pg_data :: "unified_interview_output list"
  pg_prev_cursor :: "string option"
  pg_next_cursor :: "string option"

text \<open>
  \<open>InterviewService.getInterviews\<close>.  \<open>limit\<close> is a number that nothing checks; it is
  taken here as an integer of either sign.  When the query returns no row and
  \<open>limit + 1\<close> is zero, \<open>interviews[interviews.length - 1]\<close> is \<open>undefined\<close> and reading
  its \<open>id_ats_interview\<close> is a \<open>TypeError\<close>.
\<close>

definition getInterviews ::
  "(nat \<Rightarrow> string) \<Rightarrow> (string \<Rightarrow> bool) \<Rightarrow> string \<Rightarrow> string \<Rightarrow> string \<Rightarrow> int \<Rightarrow> bool option \<Rightarrow>
   string option \<Rightarrow> db \<Rightarrow> (error + interviews_page) \<times> db"
where
  "getInterviews date_text JSON_valid connection_id integrationId linkedUserId limit remote_data_flag
       cursor s =
     (if truthy_str cursor
         \<and> find (\<lambda>r. i_id_connection r = connection_id \<and> id_ats_interview r = the cursor)
              (ats_interviews s) = None
      then (Inl ReferenceError, s)
      else
        let interviews = findMany_interviews s connection_id cursor (limit + 1)
        in if int (length interviews) = limit + 1 \<and> interviews = []
           then (Inl TypeError, s)
           else
             let next_cursor = (if int (length interviews) = limit + 1
                                then Some (base64 (id_ats_interview (last interviews))) else None);
                 interviews = (if int (length interviews) = limit + 1
                               then butlast interviews else interviews);
                 prev_cursor = (if truthy_str cursor then Some (base64 (the cursor)) else None)
             in case map_all (unify_interview date_text s) interviews of
                  Inl e \<Rightarrow> (Inl e, s)
                | Inr unifiedInterviews \<Rightarrow>
                    (case (if truthy_bool remote_data_flag
                           then map_all (with_remote_data JSON_valid s) unifiedInterviews
                           else Inr unifiedInterviews) of
                       Inl e \<Rightarrow> (Inl e, s)
                     | Inr res \<Rightarrow>
                         let (ident, s1) = uuidv4 s;
                             (now, s2) = new_Date s1;
                             s3 = s2\<lparr>events := events s2 @ [\<lparr>
                                    id_event = ident, ev_status = ''success'',
                                    ev_type = ''ats.interview.pull'', ev_method = ''GET'',
                                    ev_url = ''/ats/interviews'', ev_provider = integrationId,
                                    ev_direction = ''0'', ev_timestamp = now,
                                    ev_id_linked_user = linkedUserId\<rparr>]\<rparr>
                         in (Inr \<lparr>pg_data = res, pg_prev_cursor = prev_cursor,
                                   pg_next_cursor = next_cursor\<rparr>, s3)))"

section \<open>File-storage group sync\<close>

text \<open>
  What the save reads of a \<open>UnifiedGroupOutput\<close>.  Of \<open>field_mappings\<close> it reads the
  \<open>length\<close> property and \<open>Object.entries\<close>.
\<close>

record field_mappings_obj =
  fm_length :: "int option"
  fm_entries :: "(string \<times> string) list"

record unified_group_output =
  ug_remote_id :: "string option"
  ug_name :: "string option"
  ug_users :: "string list option"
  ug_remote_was_deleted :: "bool option"
  ug_field_mappings :: "field_mappings_obj option"

text \<open>
  The properties that both branches add to \<open>data\<close> when the group has them; \<open>data\<close> is
  shown by what it writes into a row.
\<close>

definition group_data :: "unified_group_output \<Rightarrow> fs_group \<Rightarrow> fs_group" where
  "group_data grp data =
     (let data = (if truthy_str (ug_name grp) then data\<lparr>g_name := ug_name grp\<rparr> else data);
          data = (if truthy_arr (ug_users grp) then data\<lparr>g_users := ug_users grp\<rparr> else data);
          data = (if truthy_bool (ug_remote_was_deleted grp)
                  then data\<lparr>g_remote_was_deleted := ug_remote_was_deleted grp\<rparr> else data)
      in data)"

definition update_or_create_group ::
  "string \<Rightarrow> unified_group_output \<Rightarrow> string option \<Rightarrow> db \<Rightarrow> (error + fs_group) \<times> db"
where
  "update_or_create_group connection_id grp originId s =
     (case find (\<lambda>r. g_remote_id r = originId \<and> g_id_connection r = connection_id) (fs_groups s) of
        Some existingGroup \<Rightarrow>
          let (now, s1) = new_Date s in
          (case prisma_update (\<lambda>r. id_fs_group r = id_fs_group existingGroup)
                  (\<lambda>r. group_data grp (r\<lparr>g_modified_at := now\<rparr>)) (fs_groups s1) of
             Inl e \<Rightarrow> (Inl e, s1)
           | Inr (res, rows) \<Rightarrow> (Inr res, s1\<lparr>fs_groups := rows\<rparr>))
      | None \<Rightarrow>
          let (uuid, s1) = uuidv4 s;
              (created, s2) = new_Date s1;
              (modified, s3) = new_Date s2;
              newGroup = group_data grp
                \<lparr>id_fs_group = uuid, g_name = None, g_users = None, g_remote_was_deleted = None,
                 g_remote_id = originId, g_id_connection = connection_id,
                 g_created_at = created, g_modified_at = modified\<rparr>
          in (Inr newGroup, s3\<lparr>fs_groups := fs_groups s3 @ [newGroup]\<rparr>))"

fun save_values :: "string \<Rightarrow> string \<Rightarrow> string \<Rightarrow> (string \<times> string) list \<Rightarrow> db \<Rightarrow> db" where
  "save_values linkedUserId originSource entity_id [] s = s"
| "save_values linkedUserId originSource entity_id ((k, v) # es) s =
     (case find (\<lambda>a. a_slug a = k \<and> a_source a = originSource \<and> a_id_consumer a = linkedUserId)
             (attribute s) of
        Some attr \<Rightarrow>
          let (ident, s1) = uuidv4 s;
              s2 = s1\<lparr>value_rows := value_rows s1 @
                     [\<lparr>id_value = ident, v_data = (if v = [] then ''null'' else v),
                       v_id_attribute = id_attribute attr, v_id_entity = entity_id\<rparr>]\<rparr>
          in save_values linkedUserId originSource entity_id es s2
      | None \<Rightarrow> save_values linkedUserId originSource entity_id es s)"

definition save_field_mappings ::
  "string \<Rightarrow> string \<Rightarrow> unified_group_output \<Rightarrow> string \<Rightarrow> db \<Rightarrow> db"
where
  "save_field_mappings linkedUserId originSource grp unique_fs_group_id s =
     (if (case ug_field_mappings grp of
            None \<Rightarrow> False
          | Some fm \<Rightarrow> (case fm_length fm of None \<Rightarrow> False | Some n \<Rightarrow> 0 < n))
      then
        let (ident, s1) = uuidv4 s;
            s2 = s1\<lparr>entity := entity s1 @
                   [\<lparr>id_entity = ident, e_ressource_owner_id = unique_fs_group_id\<rparr>]\<rparr>
        in save_values linkedUserId originSource ident
             (fm_entries (the (ug_field_mappings grp))) s2
      else s)"

text \<open>
  \<open>remote_data.upsert\<close>.  Both the \<open>create\<close> and the \<open>update\<close> object are built before
  the call, so one identifier and two dates are drawn in either case.  An element of
  \<open>remote_data\<close> is the JSON text of the provider's object; past the end of the array
  \<open>JSON.stringify(remote_data[i])\<close> is \<open>undefined\<close> (\<open>None\<close>), and Prisma takes an
  \<open>undefined\<close> property as absent: the update leaves the column \<open>data\<close> as it is, the
  create leaves it null.
\<close>

definition upsert_remote_data :: "string \<Rightarrow> string option \<Rightarrow> db \<Rightarrow> db" where
  "upsert_remote_data owner data s =
     (let (ident, s1) = uuidv4 s;
          (created, s2) = new_Date s1;
          (updated, s3) = new_Date s2
      in case find (\<lambda>r. rd_ressource_owner_id r = owner) (remote_data s3) of
           Some existing \<Rightarrow>
             s3\<lparr>remote_data := update_first (\<lambda>r. rd_ressource_owner_id r = owner)
                  (\<lambda>r. r\<lparr>rd_data := (case data of None \<Rightarrow> rd_data r | Some d \<Rightarrow> Some d),
                          rd_created_at := updated\<rparr>) (remote_data s3)\<rparr>
         | None \<Rightarrow>
             s3\<lparr>remote_data := remote_data s3 @
                  [\<lparr>id_remote_data = ident, rd_ressource_owner_id = owner, rd_format = ''json'',
                    rd_data = data, rd_created_at = created\<rparr>]\<rparr>)"

text \<open>
  The loop of \<open>SyncService.saveGroupsInDb\<close> from index \<open>i\<close> on.  The state after a throw
  is the state the throw leaves behind.
\<close>

fun saveGroupsInDb_loop ::
  "string \<Rightarrow> string \<Rightarrow> string \<Rightarrow> string list \<Rightarrow> unified_group_output list \<Rightarrow> nat \<Rightarrow>
   fs_group list \<Rightarrow> db \<Rightarrow> (error + fs_group list) \<times> db"
where
  "saveGroupsInDb_loop connection_id linkedUserId originSource remote_data_arg [] i groups_results s =
     (Inr groups_results, s)"
| "saveGroupsInDb_loop connection_id linkedUserId originSource remote_data_arg (grp # rest) i
       groups_results s =
     (let originId = ug_remote_id grp in
      if \<not> truthy_str originId \<or> originId = Some []
      then (Inl ReferenceError, s)
      else
        (case update_or_create_group connection_id grp originId s of
           (Inl e, s1) \<Rightarrow> (Inl e, s1)
         | (Inr res, s1) \<Rightarrow>
             let unique_fs_group_id = id_fs_group res;
                 groups_results = groups_results @ [res];
                 s2 = save_field_mappings linkedUserId originSource grp unique_fs_group_id s1;
                 s3 = upsert_remote_data unique_fs_group_id
                        (if i < length remote_data_arg then Some (remote_data_arg ! i) else None) s2
             in saveGroupsInDb_loop connection_id linkedUserId originSource remote_data_arg rest
                  (Suc i) groups_results s3))"

definition saveGroupsInDb ::
  "string \<Rightarrow> string \<Rightarrow> unified_group_output list \<Rightarrow> string \<Rightarrow> string list \<Rightarrow> db \<Rightarrow>
   (error + fs_group list) \<times> db"
where
  "saveGroupsInDb connection_id linkedUserId groups originSource remote_data_arg s =
     saveGroupsInDb_loop connection_id linkedUserId originSource remote_data_arg groups 0 [] s"

text \<open>
  \<open>SyncService.syncGroupsForLinkedUser\<close>.  Parameters: the custom field mappings of
  \<open>FieldMappingService\<close>, the provider's \<open>syncGroups\<close> reached through the service
  registry, and \<open>CoreUnification.unify\<close>; the last two may throw, the first is taken to
  return.  The objects of the provider are kept as their JSON text.
  \<open>WebhookService.handleWebhook\<close> is taken to return; it adds its arguments to the log
  of emitted webhooks.
\<close>

definition syncGroupsForLinkedUser ::
  "(string \<Rightarrow> string \<Rightarrow> string \<Rightarrow> custom_field_mapping list) \<Rightarrow>
   (string \<Rightarrow> string \<Rightarrow> string list \<Rightarrow> error + string list) \<Rightarrow>
   (string list \<Rightarrow> string \<Rightarrow> custom_field_mapping list \<Rightarrow> error + unified_group_output list) \<Rightarrow>
   string \<Rightarrow> string \<Rightarrow> string \<Rightarrow> db \<Rightarrow> (error + unit) \<times> db"
where
  "syncGroupsForLinkedUser getCustomFieldMappings service_syncGroups unify integrationId
       linkedUserId id_project s =
     (case find (\<lambda>c. cn_id_linked_user c = linkedUserId \<and> cn_provider_slug c = integrationId
                     \<and> cn_vertical c = ''filestorage'') (connections s) of
        None \<Rightarrow> (Inr (), s)
      | Some connection \<Rightarrow>
          let customFieldMappings =
                getCustomFieldMappings integrationId linkedUserId ''filestorage.group'';
              remoteProperties = map cfm_remote_id customFieldMappings
          in case service_syncGroups integrationId linkedUserId remoteProperties of
               Inl e \<Rightarrow> (Inl e, s)
             | Inr sourceObject \<Rightarrow>
                 (case unify sourceObject integrationId customFieldMappings of
                    Inl e \<Rightarrow> (Inl e, s)
                  | Inr unifiedObject \<Rightarrow>
                      (case saveGroupsInDb (cn_id_connection connection) linkedUserId unifiedObject
                              integrationId sourceObject s of
                         (Inl e, s1) \<Rightarrow> (Inl e, s1)
                       | (Inr groups_data, s1) \<Rightarrow>
                           let (ident, s2) = uuidv4 s1;
                               (now, s3) = new_Date s2;
                               event = \<lparr>id_event = ident, ev_status = ''success'',
                                        ev_type = ''filestorage.group.pulled'', ev_method = ''PULL'',
                                        ev_url = ''/pull'', ev_provider = integrationId,
                                        ev_direction = ''0'', ev_timestamp = now,
                                        ev_id_linked_user = linkedUserId\<rparr>;
                               s4 = s3\<lparr>events := events s3 @ [event]\<rparr>;
                               s5 = s4\<lparr>webhooks := webhooks s4 @
                                      [\<lparr>wh_payload = groups_data,
                                        wh_type = ''filestorage.group.pulled'',
                                        wh_id_project = id_project,
                                        wh_id_event = id_event event\<rparr>]\<rparr>
                           in (Inr (), s5))))"

section \<open>ATS attachment sync\<close>

text \<open>
  What \<open>saveToDb\<close> reads of a \<open>UnifiedAttachmentOutput\<close>; the field mappings are only
  handed on, so their type is a parameter.
\<close>

record 'fm unified_attachment_output =
  ua_remote_id :: "string option"
  ua_file_url :: "string option"
  ua_file_name :: "string option"
  ua_file_type :: "string option"
  ua_remote_created_at :: "nat option"
  ua_remote_modified_at :: "nat option"
  ua_field_mappings :: 'fm

text \<open>\<open>baseData\<close>, shown by what it writes into a row.\<close>

definition baseData ::
  "'fm unified_attachment_output \<Rightarrow> string option \<Rightarrow> nat \<Rightarrow> ats_candidate_attachment \<Rightarrow>
   ats_candidate_attachment"
where
  "baseData attachment candidate_id now r =
     r\<lparr>at_file_url := ua_file_url attachment,
       at_file_name := ua_file_name attachment,
       at_file_type := ua_file_type attachment,
       at_remote_created_at := ua_remote_created_at attachment,
       at_remote_modified_at := ua_remote_modified_at attachment,
       at_candidate_id := candidate_id,
       at_modified_at := now\<rparr>"

text \<open>
  The inner function \<open>updateOrCreateAttachment\<close>.  The update selects the row by its
  primary key \<open>id_ats_candidate_attachment\<close>; the create writes \<open>id_ats_attachment\<close> and
  leaves the primary key to the database, whose choice for a new row of a table is the
  parameter \<open>new_pk\<close>.
\<close>

definition updateOrCreateAttachment ::
  "(ats_candidate_attachment list \<Rightarrow> string) \<Rightarrow> string \<Rightarrow> string option \<Rightarrow>
   'fm unified_attachment_output \<Rightarrow> string \<Rightarrow> db \<Rightarrow> (error + ats_candidate_attachment) \<times> db"
where
  "updateOrCreateAttachment new_pk connection_id candidate_id attachment originId s =
     (let existingAttachment =
            find (\<lambda>r. at_remote_id r = Some originId \<and> at_id_connection r = connection_id)
              (ats_candidate_attachments s);
          (now, s1) = new_Date s
      in case existingAttachment of
           Some existing \<Rightarrow>
             (case prisma_update
                     (\<lambda>r. id_ats_candidate_attachment r = id_ats_candidate_attachment existing)
                     (baseData attachment candidate_id now) (ats_candidate_attachments s1) of
                Inl e \<Rightarrow> (Inl e, s1)
              | Inr (res, rows) \<Rightarrow> (Inr res, s1\<lparr>ats_candidate_attachments := rows\<rparr>))
         | None \<Rightarrow>
             let (uuid, s2) = uuidv4 s1;
                 (created, s3) = new_Date s2;
                 res = baseData attachment candidate_id now
                   \<lparr>id_ats_candidate_attachment = new_pk (ats_candidate_attachments s3),
                    id_ats_attachment = Some uuid,
                    at_remote_id = Some originId, at_id_connection = connection_id,
                    at_file_url = None, at_file_name = None, at_file_type = None,
                    at_remote_created_at = None, at_remote_modified_at = None,
                    at_candidate_id = None, at_created_at = created, at_modified_at = now\<rparr>
             in (Inr res, s3\<lparr>ats_candidate_attachments := ats_candidate_attachments s3 @ [res]\<rparr>))"

text \<open>
  The loop of \<open>SyncService.saveToDb\<close> from index \<open>i\<close> on.  \<open>processFieldMappings\<close> and
  \<open>processRemoteData\<close> of \<open>IngestDataService\<close> are parameters, taken to return: each is
  a function on the state.
\<close>

fun saveToDb_loop ::
  "(ats_candidate_attachment list \<Rightarrow> string) \<Rightarrow>
   ('fm \<Rightarrow> string option \<Rightarrow> string \<Rightarrow> string \<Rightarrow> db \<Rightarrow> db) \<Rightarrow>
   (string option \<Rightarrow> string option \<Rightarrow> db \<Rightarrow> db) \<Rightarrow>
   string \<Rightarrow> string \<Rightarrow> string \<Rightarrow> string list \<Rightarrow> string option \<Rightarrow>
   'fm unified_attachment_output list \<Rightarrow> nat \<Rightarrow> ats_candidate_attachment list \<Rightarrow> db \<Rightarrow>
   (error + ats_candidate_attachment list) \<times> db"
where
  "saveToDb_loop new_pk processFieldMappings processRemoteData connection_id linkedUserId
       originSource remote_data_arg candidate_id [] i attachments_results s =
     (Inr attachments_results, s)"
| "saveToDb_loop new_pk processFieldMappings processRemoteData connection_id linkedUserId
       originSource remote_data_arg candidate_id (attachment # rest) i attachments_results s =
     (let originId = ua_remote_id attachment in
      if \<not> truthy_str originId \<or> originId = Some []
      then (Inl ReferenceError, s)
      else
        (case updateOrCreateAttachment new_pk connection_id candidate_id attachment
                (the originId) s of
           (Inl e, s1) \<Rightarrow> (Inl e, s1)
         | (Inr res, s1) \<Rightarrow>
             let attachment_id = id_ats_attachment res;
                 attachments_results = attachments_results @ [res];
                 s2 = processFieldMappings (ua_field_mappings attachment) attachment_id
                        originSource linkedUserId s1;
                 s3 = processRemoteData attachment_id
                        (if i < length remote_data_arg then Some (remote_data_arg ! i) else None) s2
             in saveToDb_loop new_pk processFieldMappings processRemoteData connection_id
                  linkedUserId originSource remote_data_arg candidate_id rest (Suc i)
                  attachments_results s3))"

definition saveToDb ::
  "(ats_candidate_attachment list \<Rightarrow> string) \<Rightarrow>
   ('fm \<Rightarrow> string option \<Rightarrow> string \<Rightarrow> string \<Rightarrow> db \<Rightarrow> db) \<Rightarrow>
   (string option \<Rightarrow> string option \<Rightarrow> db \<Rightarrow> db) \<Rightarrow>
   string \<Rightarrow> string \<Rightarrow> 'fm unified_attachment_output list \<Rightarrow> string \<Rightarrow> string list \<Rightarrow>
   string option \<Rightarrow> db \<Rightarrow> (error + ats_candidate_attachment list) \<times> db"
where
  "saveToDb new_pk processFieldMappings processRemoteData connection_id linkedUserId attachments
       originSource remote_data_arg candidate_id s =
     saveToDb_loop new_pk processFieldMappings processRemoteData connection_id linkedUserId
       originSource remote_data_arg candidate_id attachments 0 [] s"

section \<open>Sync fan-out\<close>

text \<open>
  \<open>syncGroups\<close> and \<open>syncAttachments\<close> have the same body.  The callbacks of
  \<open>linkedUsers.map\<close> are not awaited, so what the functions do is start the calls of the
  per-linked-user sync; the result is the calls made and the error thrown, if any.
  Inside a callback the calls are awaited one after the other and a rejected call is
  rethrown, which ends the loop over the providers of that linked user; \<open>rejects\<close> tells
  which calls reject.  The callbacks run interleaved: \<open>map\<close> starts the first call of
  every linked user of a project before any of them reaches its second provider, and
  when the later calls start depends on when the earlier ones settle.  So the list of
  the calls is kept callback by callback, in the order \<open>map\<close> starts the callbacks, and
  inside a callback in the order of its calls; across callbacks the place in the list
  says nothing about time.  The provider lists \<open>FILESTORAGE_PROVIDERS\<close> and
  \<open>ATS_PROVIDERS\<close> are parameters.
\<close>

fun providers_loop :: "('c \<Rightarrow> bool) \<Rightarrow> (string \<Rightarrow> 'c) \<Rightarrow> string list \<Rightarrow> 'c list" where
  "providers_loop rejects call [] = []"
| "providers_loop rejects call (provider # rest) =
     call provider # (if rejects (call provider) then [] else providers_loop rejects call rest)"

definition projects_loop ::
  "('c \<Rightarrow> bool) \<Rightarrow> (string \<Rightarrow> string \<Rightarrow> string \<Rightarrow> 'c) \<Rightarrow> string list \<Rightarrow> db \<Rightarrow> user \<Rightarrow> 'c list"
where
  "projects_loop rejects call providers s user =
     concat (map (\<lambda>project.
        concat (map (\<lambda>linkedUser.
            providers_loop rejects
              (\<lambda>provider. call provider (lu_id_linked_user linkedUser) (p_id_project project))
              providers)
          (filter (\<lambda>l. lu_id_project l = p_id_project project) (linked_users s))))
       (filter (\<lambda>p. p_id_user p = u_id_user user) (projects s)))"

fun users_loop ::
  "('c \<Rightarrow> bool) \<Rightarrow> (string \<Rightarrow> string \<Rightarrow> string \<Rightarrow> 'c) \<Rightarrow> string list \<Rightarrow> db \<Rightarrow> user option list \<Rightarrow>
   'c list \<times> error option"
where
  "users_loop rejects call providers s [] = ([], None)"
| "users_loop rejects call providers s (None # rest) = ([], Some TypeError)"
| "users_loop rejects call providers s (Some user # rest) =
     (case users_loop rejects call providers s rest of
        (calls, err) \<Rightarrow> (projects_loop rejects call providers s user @ calls, err))"

definition sync_fan_out ::
  "('c \<Rightarrow> bool) \<Rightarrow> (string \<Rightarrow> string \<Rightarrow> string \<Rightarrow> 'c) \<Rightarrow> string list \<Rightarrow> string option \<Rightarrow> db \<Rightarrow>
   'c list \<times> error option"
where
  "sync_fan_out rejects call providers user_id s =
     (let users = (if truthy_str user_id
                   then [find (\<lambda>u. u_id_user u = the user_id) (users s)]
                   else map Some (users s))
      in users_loop rejects call providers s users)"

text \<open>
  \<open>syncGroups\<close> calls \<open>syncGroupsForLinkedUser(provider, id_linked_user, id_project)\<close>,
  \<open>syncAttachments\<close> calls \<open>syncAttachmentsForLinkedUser(provider, id_linked_user)\<close>.
\<close>

definition syncGroups ::
  "string list \<Rightarrow> (string \<times> string \<times> string \<Rightarrow> bool) \<Rightarrow> string option \<Rightarrow> db \<Rightarrow>
   (string \<times> string \<times> string) list \<times> error option"
where
  "syncGroups FILESTORAGE_PROVIDERS rejects user_id s =
     sync_fan_out rejects (\<lambda>provider id_linked_user id_project. (provider, id_linked_user, id_project))
       FILESTORAGE_PROVIDERS user_id s"

definition syncAttachments ::
  "string list \<Rightarrow> (string \<times> string \<Rightarrow> bool) \<Rightarrow> string option \<Rightarrow> db \<Rightarrow>
   (string \<times> string) list \<times> error option"
where
  "syncAttachments ATS_PROVIDERS rejects user_id s =
     sync_fan_out rejects (\<lambda>provider id_linked_user id_project. (provider, id_linked_user))
       ATS_PROVIDERS user_id s"

text \<open>The linked users that the traversal of a user reaches, in order.\<close>

definition visited :: "db \<Rightarrow> user \<Rightarrow> linked_user list" where
  "visited s u =
     concat (map (\<lambda>pr. filter (\<lambda>l. lu_id_project l = p_id_project pr) (linked_users s))
       (filter (\<lambda>p. p_id_user p = u_id_user u) (projects s)))"

text \<open>The users a call selects: the one with the given id, or all of them.\<close>

definition selected_users :: "string option \<Rightarrow> db \<Rightarrow> user list" where
  "selected_users user_id s =
     (if truthy_str user_id then filter (\<lambda>u. u_id_user u = the user_id) (users s) else users s)"

text \<open>
  Following the specification: the fan-out goes over every user (the user with the given
  id, when one is given), every project of that user, every linked user of that project
  and every provider.  \<open>fan_out_target\<close> holds of the triples this describes.
\<close>

definition fan_out_target :: "db \<Rightarrow> string list \<Rightarrow> string option \<Rightarrow> string \<Rightarrow> string \<Rightarrow> string \<Rightarrow> bool" where
  "fan_out_target s providers user_id provider id_linked_user id_project \<longleftrightarrow>
     provider \<in> set providers
     \<and> (\<exists>l \<in> set (linked_users s). \<exists>pr \<in> set (projects s). \<exists>u \<in> set (users s).
           lu_id_linked_user l = id_linked_user \<and> lu_id_project l = id_project
           \<and> p_id_project pr = id_project \<and> p_id_user pr = u_id_user u
           \<and> (truthy_str user_id \<longrightarrow> u_id_user u = the user_id))"

section \<open>Notions for the upsert properties\<close>

text \<open>
  The key of the upsert is the pair of \<open>remote_id\<close> and \<open>id_connection\<close>.  Every run of
  a save stamps \<open>modified_at\<close> anew, so tables are compared with that column blanked.
\<close>

definition group_key :: "fs_group \<Rightarrow> string option \<times> string" where
  "group_key r = (g_remote_id r, g_id_connection r)"

definition unified_group_key :: "string \<Rightarrow> unified_group_output \<Rightarrow> string option \<times> string" where
  "unified_group_key connection_id grp = (ug_remote_id grp, connection_id)"

definition group_unstamped :: "fs_group \<Rightarrow> fs_group" where
  "group_unstamped r = r\<lparr>g_modified_at := 0\<rparr>"

definition attachment_key :: "ats_candidate_attachment \<Rightarrow> string option \<times> string" where
  "attachment_key r = (at_remote_id r, at_id_connection r)"

definition unified_attachment_key ::
  "string \<Rightarrow> 'fm unified_attachment_output \<Rightarrow> string option \<times> string" where
  "unified_attachment_key connection_id attachment = (ua_remote_id attachment, connection_id)"

definition attachment_unstamped :: "ats_candidate_attachment \<Rightarrow> ats_candidate_attachment" where
  "attachment_unstamped r = r\<lparr>at_modified_at := 0\<rparr>"

text \<open>
  Following the specification: a table is the upsert of another by a list of keys when
  the rows that were there keep their place, their key and their identifier, and the
  rows added after them have one row for each listed key that was not there, and
  nothing else.
\<close>

definition upserted :: "('r \<Rightarrow> 'k) \<Rightarrow> ('r \<Rightarrow> 'i) \<Rightarrow> 'k list \<Rightarrow> 'r list \<Rightarrow> 'r list \<Rightarrow> bool" where
  "upserted key ident ks before after \<longleftrightarrow>
     map key (take (length before) after) = map key before
     \<and> map ident (take (length before) after) = map ident before
     \<and> distinct (map key (drop (length before) after))
     \<and> set (map key (drop (length before) after)) = set ks - set (map key before)"

text \<open>
  What the database and \<open>uuidv4\<close> guarantee: the primary keys of \<open>fs_groups\<close> are
  unique, and the identifiers still to be drawn differ from each other and from the
  keys in the table.
\<close>

definition fs_groups_wf :: "db \<Rightarrow> bool" where
  "fs_groups_wf s \<longleftrightarrow>
     distinct (map id_fs_group (fs_groups s))
     \<and> inj (uuid_stream s)
     \<and> (\<forall>i \<in> set (map id_fs_group (fs_groups s)). \<forall>n \<ge> uuid_next s. i \<noteq> uuid_stream s n)"

text \<open>
  For the attachments: the primary keys are unique, the key the database gives a new
  row is not in the table, and the two functions of \<open>IngestDataService\<close> leave the
  table of attachments alone.
\<close>

definition attachments_wf :: "db \<Rightarrow> bool" where
  "attachments_wf s \<longleftrightarrow> distinct (map id_ats_candidate_attachment (ats_candidate_attachments s))"

definition fresh_pk :: "(ats_candidate_attachment list \<Rightarrow> string) \<Rightarrow> bool" where
  "fresh_pk new_pk \<longleftrightarrow> (\<forall>rows. new_pk rows \<notin> id_ats_candidate_attachment ` set rows)"

definition keeps_attachments ::
  "('fm \<Rightarrow> string option \<Rightarrow> string \<Rightarrow> string \<Rightarrow> db \<Rightarrow> db) \<Rightarrow>
   (string option \<Rightarrow> string option \<Rightarrow> db \<Rightarrow> db) \<Rightarrow> bool" where
  "keeps_attachments processFieldMappings processRemoteData \<longleftrightarrow>
     (\<forall>fm ident src lu s. ats_candidate_attachments (processFieldMappings fm ident src lu s)
                           = ats_candidate_attachments s)
     \<and> (\<forall>ident d s. ats_candidate_attachments (processRemoteData ident d s)
                     = ats_candidate_attachments s)"

text \<open>
  A run of upserts whose keys are all in the table: each element rewrites the first row
  of its key.  \<open>firsts_map\<close> rewrites the first row of every key not seen before, and
  \<open>row_fold\<close> is what a run does to a single row.
\<close>

definition upsert_fold ::
  "('r \<Rightarrow> 'k) \<Rightarrow> ('g \<Rightarrow> 'k) \<Rightarrow> ('g \<Rightarrow> 'r \<Rightarrow> 'r) \<Rightarrow> 'g list \<Rightarrow> 'r list \<Rightarrow> 'r list" where
  "upsert_fold key kg patch gs X = fold (\<lambda>g. update_first (\<lambda>r. key r = kg g) (patch g)) gs X"

fun firsts_map :: "('r \<Rightarrow> 'k) \<Rightarrow> ('r \<Rightarrow> 'r) \<Rightarrow> 'k set \<Rightarrow> 'r list \<Rightarrow> 'r list" where
  "firsts_map key f seen [] = []"
| "firsts_map key f seen (r # rs) =
     (if key r \<in> seen then r else f r) # firsts_map key f (insert (key r) seen) rs"

definition row_fold :: "('r \<Rightarrow> 'k) \<Rightarrow> ('g \<Rightarrow> 'k) \<Rightarrow> ('g \<Rightarrow> 'r \<Rightarrow> 'r) \<Rightarrow> 'g list \<Rightarrow> 'r \<Rightarrow> 'r" where
  "row_fold key kg patch gs r = fold (\<lambda>g r. if key r = kg g then patch g r else r) gs r"

text \<open>The writes that leave a column alone or set it to a fixed value.\<close>

definition group_write ::
  "string option option \<Rightarrow> string list option option \<Rightarrow> bool option option \<Rightarrow> fs_group \<Rightarrow> fs_group"
where
  "group_write a b c r =
     r\<lparr>g_name := (case a of None \<Rightarrow> g_name r | Some v \<Rightarrow> v),
       g_users := (case b of None \<Rightarrow> g_users r | Some v \<Rightarrow> v),
       g_remote_was_deleted := (case c of None \<Rightarrow> g_remote_was_deleted r | Some v \<Rightarrow> v)\<rparr>"

definition is_group_write :: "(fs_group \<Rightarrow> fs_group) \<Rightarrow> bool" where
  "is_group_write f \<longleftrightarrow> (\<exists>a b c. f = group_write a b c)"

definition is_attachment_write ::
  "(ats_candidate_attachment \<Rightarrow> ats_candidate_attachment) \<Rightarrow> bool" where
  "is_attachment_write f \<longleftrightarrow>
     f = (\<lambda>r. r)
     \<or> (\<exists>u n t cr cm cand. f = (\<lambda>r. r\<lparr>at_file_url := u, at_file_name := n, at_file_type := t,
            at_remote_created_at := cr, at_remote_modified_at := cm, at_candidate_id := cand,
            at_modified_at := 0\<rparr>))"

section \<open>Example states\<close>

text \<open>Small states on which the properties below are exercised.\<close>

definition empty_db :: db where
  "empty_db = \<lparr>users = [], projects = [], linked_users = [], connections = [], fs_groups = [],
     ats_candidate_attachments = [], ats_interviews = [], entity = [], attribute = [],
     value_rows = [], remote_data = [], events = [], webhooks = [],
     uuid_stream = (\<lambda>n. CHR ''u'' # replicate n (CHR ''x'')), uuid_next = 0,
     date_stream = (\<lambda>n. 1000 + n), date_next = 0\<rparr>"

definition example_user :: "string \<Rightarrow> string option \<Rightarrow> nat option \<Rightarrow> user" where
  "example_user ident tok expiry =
     \<lparr>u_id_user = ident, u_email = ident @ ''@example.com'', u_first_name = ''Ada'',
      u_last_name = ''Lovelace'', u_password_hash = ''old'', u_reset_token = tok,
      u_reset_token_expiry = expiry\<rparr>"

definition auth_db :: db where
  "auth_db = empty_db\<lparr>users :=
     [example_user ''u1'' None None, example_user ''u2'' (Some ''tok'') (Some 2000),
      example_user ''u3'' (Some ''tok'') (Some 500)]\<rparr>"

definition example_interview :: "string \<Rightarrow> string \<Rightarrow> nat \<Rightarrow> ats_interview" where
  "example_interview ident conn t =
     \<lparr>id_ats_interview = ident, i_status = None, i_id_ats_application = None,
      i_id_ats_job_interview_stage = None, i_organized_by = None, i_interviewers = [],
      i_location = None, i_start_at = None, i_end_at = None, i_remote_created_at = None,
      i_remote_updated_at = None, i_remote_id = None, i_created_at = t, i_modified_at = t,
      i_id_connection = conn\<rparr>"

definition fan_out_db :: db where
  "fan_out_db = empty_db\<lparr>
     users := [example_user ''u1'' None None, example_user ''u2'' None None],
     projects := [\<lparr>p_id_project = ''p1'', p_id_user = ''u1''\<rparr>,
                  \<lparr>p_id_project = ''p2'', p_id_user = ''u2''\<rparr>],
     linked_users := [\<lparr>lu_id_linked_user = ''l1'', lu_id_project = ''p1''\<rparr>,
                      \<lparr>lu_id_linked_user = ''l2'', lu_id_project = ''p2''\<rparr>]\<rparr>"

definition rejects_box :: "string \<times> string \<times> string \<Rightarrow> bool" where
  "rejects_box c = (fst c = ''box'')"

definition rejects_none :: "'c \<Rightarrow> bool" where
  "rejects_none c = False"

definition example_date_text :: "nat \<Rightarrow> string" where
  "example_date_text t = ''date''"

definition example_JSON_valid :: "string \<Rightarrow> bool" where
  "example_JSON_valid t = (t = ''{}'')"

definition example_remote_data :: "string \<Rightarrow> string option \<Rightarrow> remote_data_row" where
  "example_remote_data owner d =
     \<lparr>id_remote_data = ''rd-'' @ owner, rd_ressource_owner_id = owner, rd_format = ''json'',
      rd_data = d, rd_created_at = 1\<rparr>"

definition interviews_db :: db where
  "interviews_db = empty_db\<lparr>
     ats_interviews :=
       [example_interview ''a'' ''c1'' 10, example_interview ''b'' ''c1'' 20,
        example_interview ''x'' ''c2'' 5, example_interview ''e'' ''c1'' 5],
     remote_data :=
       [example_remote_data ''a'' (Some ''{}''), example_remote_data ''b'' None,
        example_remote_data ''x'' (Some ''{}''), example_remote_data ''e'' (Some ''{}'')]\<rparr>"

definition example_group :: "string option \<Rightarrow> string \<Rightarrow> unified_group_output" where
  "example_group rid name =
     \<lparr>ug_remote_id = rid, ug_name = Some name, ug_users = None, ug_remote_was_deleted = None,
      ug_field_mappings = None\<rparr>"

definition example_attachment :: "string option \<Rightarrow> string \<Rightarrow> unit unified_attachment_output" where
  "example_attachment rid name =
     \<lparr>ua_remote_id = rid, ua_file_url = None, ua_file_name = Some name, ua_file_type = None,
      ua_remote_created_at = None, ua_remote_modified_at = None, ua_field_mappings = ()\<rparr>"

text \<open>
  A choice of primary key that is new to every table: a text longer than all the keys in
  use.  The two functions of \<open>IngestDataService\<close> are taken to do nothing.
\<close>

definition example_new_pk :: "ats_candidate_attachment list \<Rightarrow> string" where
  "example_new_pk rows =
     replicate (Suc (sum_list (map (\<lambda>r. length (id_ats_candidate_attachment r)) rows))) (CHR ''k'')"

definition example_processFieldMappings :: "unit \<Rightarrow> string option \<Rightarrow> string \<Rightarrow> string \<Rightarrow> db \<Rightarrow> db" where
  "example_processFieldMappings fm ident src lu s = s"

definition example_processRemoteData :: "string option \<Rightarrow> string option \<Rightarrow> db \<Rightarrow> db" where
  "example_processRemoteData ident d s = s"

definition sync_db :: db where
  "sync_db = empty_db\<lparr>connections :=
     [\<lparr>cn_id_connection = ''c1'', cn_id_linked_user = ''lu1'', cn_provider_slug = ''box'',
       cn_vertical = ''filestorage''\<rparr>]\<rparr>"

definition upsert_db :: db where
  "upsert_db = empty_db\<lparr>
     fs_groups :=
       [\<lparr>id_fs_group = ''g-0'', g_name = Some ''Old'', g_users = None,
         g_remote_was_deleted = None, g_remote_id = Some ''g1'', g_id_connection = ''c1'',
         g_created_at = 1, g_modified_at = 1\<rparr>],
     ats_candidate_attachments :=
       [\<lparr>id_ats_candidate_attachment = ''k0'', id_ats_attachment = Some ''a-0'',
         at_remote_id = Some ''a1'', at_id_connection = ''c1'', at_file_url = None,
         at_file_name = Some ''old.pdf'', at_file_type = None, at_remote_created_at = None,
         at_remote_modified_at = None, at_candidate_id = None, at_created_at = 1,
         at_modified_at = 1\<rparr>]\<rparr>"

definition example_getCustomFieldMappings :: "string \<Rightarrow> string \<Rightarrow> string \<Rightarrow> custom_field_mapping list" where
  "example_getCustomFieldMappings integrationId linkedUserId obj = []"

definition example_service_syncGroups :: "string \<Rightarrow> string \<Rightarrow> string list \<Rightarrow> error + string list" where
  "example_service_syncGroups integrationId linkedUserId remoteProperties = Inr [''{}'']"

definition example_unify ::
  "string list \<Rightarrow> string \<Rightarrow> custom_field_mapping list \<Rightarrow> error + unified_group_output list" where
  "example_unify sourceObject integrationId customFieldMappings =
     Inr [example_group (Some ''g1'') ''Admins'']"

section \<open>Properties of the Zendesk ticket mapper\<close>

lemma desunify_step:
  "zc_public (zti_comment a) \<Longrightarrow>
   (\<And>r. zc_public (zti_comment r) \<Longrightarrow> \<exists>z. f r = Inr z \<and> zc_public (zti_comment z)) \<Longrightarrow>
   \<exists>z. Let a f = Inr z \<and> zc_public (zti_comment z)"
  by simp

text \<open>
  Claim C8.  For every unified ticket input with a comment, \<open>desunify\<close> produces a Zendesk
  ticket, and the \<open>public\<close> field of its comment is true whatever \<open>is_private\<close> says (also
  when it is true): \<open>!source.comment.is_private || true\<close> is true for every input.
\<close>

theorem desunify_comment_public:
  "uti_comment source = Some comment \<Longrightarrow>
   \<exists>z. desunify getAssigneeMetadataFromUuid toISOString source customFieldMappings = Inr z
       \<and> zc_public (zti_comment z)"
  unfolding desunify_def
  apply (simp only: option.case)
  apply (rule desunify_step, simp split: option.split list.split prod.split)+
  apply simp
  done

theorem desunify_comment_public_witness:
  "\<exists>z. desunify (\<lambda>u. Some ''agent@example.com'') (\<lambda>d. ''1970-01-01T00:00:00.000Z'')
          \<lparr>uti_name = ''Printer'', uti_description = ''It burns'',
           uti_comment = Some \<lparr>uc_body = ''secret'', uc_html_body = None, uc_is_private = Some True,
                                uc_created_at = 0, uc_modified_at = 0, uc_creator_type = None,
                                uc_ticket_id = ''t1'', uc_contact_id = None, uc_user_id = None\<rparr>,
           uti_attachments = None, uti_assigned_to = None, uti_due_date = None,
           uti_priority = Some ''MEDIUM'', uti_status = None, uti_tags = None, uti_type = None,
           uti_field_mappings = None\<rparr> None = Inr z
       \<and> zc_public (zti_comment z)"
  using desunify_comment_public [of
          "\<lparr>uti_name = ''Printer'', uti_description = ''It burns'',
           uti_comment = Some \<lparr>uc_body = ''secret'', uc_html_body = None, uc_is_private = Some True,
                                uc_created_at = 0, uc_modified_at = 0, uc_creator_type = None,
                                uc_ticket_id = ''t1'', uc_contact_id = None, uc_user_id = None\<rparr>,
           uti_attachments = None, uti_assigned_to = None, uti_due_date = None,
           uti_priority = Some ''MEDIUM'', uti_status = None, uti_tags = None, uti_type = None,
           uti_field_mappings = None\<rparr>"]
  by simp

lemma ticket_opts_cases:
  "ticket_opts g un ex ticket c = None
   \<or> (\<exists>v. ticket_opts g un ex ticket c = Some \<lparr>o_assigned_to = Some v, o_type = None, o_tags = None\<rparr>)
   \<or> (\<exists>v. ticket_opts g un ex ticket c = Some \<lparr>o_assigned_to = None, o_type = Some v, o_tags = None\<rparr>)
   \<or> (\<exists>v. ticket_opts g un ex ticket c = Some \<lparr>o_assigned_to = None, o_type = None, o_tags = Some v\<rparr>)"
  by (simp add: ticket_opts_def Let_def)

lemma ticket_opts_tags:
  "zto_tags ticket = Some ts \<Longrightarrow>
   ticket_opts g un ex ticket c = Some \<lparr>o_assigned_to = None, o_type = None, o_tags = Some (un ts c)\<rparr>"
  by (simp add: ticket_opts_def Let_def truthy_arr_def)

lemma mapSingle_opts:
  "mapSingleTicketToUnified g un nd ex ticket c cfm = Inr u \<Longrightarrow>
   uto_assigned_to u = (case ticket_opts g un ex ticket c of None \<Rightarrow> None | Some p \<Rightarrow> o_assigned_to p)
   \<and> uto_type u = (case ticket_opts g un ex ticket c of None \<Rightarrow> None | Some p \<Rightarrow> o_type p)
   \<and> uto_tags u = (case ticket_opts g un ex ticket c of None \<Rightarrow> None | Some p \<Rightarrow> o_tags p)"
  by (auto simp: mapSingleTicketToUnified_def Let_def split: sum.splits)

text \<open>
  Claim C9.  Each branch of \<open>mapSingleTicketToUnified\<close> assigns a new object to \<open>opts\<close>, so
  the unified ticket has at most one of \<open>assigned_to\<close>, \<open>type\<close> and \<open>tags\<close>; for a ticket
  that has tags it has the unified tags and neither \<open>assigned_to\<close> nor \<open>type\<close>, whatever
  \<open>assignee_id\<close> and \<open>type\<close> the ticket carries.
\<close>

theorem mapSingleTicketToUnified_opts_exclusive:
  assumes "mapSingleTicketToUnified getUserUuidFromRemoteId unify_tags Date_of_string exponent_text
             ticket connectionId customFieldMappings = Inr u"
  shows "(zto_tags ticket = Some ts \<longrightarrow>
            uto_tags u = Some (unify_tags ts connectionId) \<and> uto_assigned_to u = None
            \<and> uto_type u = None)
       \<and> ((uto_assigned_to u = None \<and> uto_type u = None)
          \<or> (uto_assigned_to u = None \<and> uto_tags u = None)
          \<or> (uto_type u = None \<and> uto_tags u = None))"
proof -
  note o = mapSingle_opts [OF assms]
  have "zto_tags ticket = Some ts \<longrightarrow>
            uto_tags u = Some (unify_tags ts connectionId) \<and> uto_assigned_to u = None
            \<and> uto_type u = None"
    using o by (simp add: ticket_opts_tags)
  moreover have "(uto_assigned_to u = None \<and> uto_type u = None)
          \<or> (uto_assigned_to u = None \<and> uto_tags u = None)
          \<or> (uto_type u = None \<and> uto_tags u = None)"
    using o ticket_opts_cases [of getUserUuidFromRemoteId unify_tags exponent_text ticket connectionId]
    by (elim disjE exE) simp_all
  ultimately show ?thesis by blast
qed

theorem mapSingleTicketToUnified_opts_exclusive_witness:
  "mapSingleTicketToUnified (\<lambda>r c. Some ''user-1'') (\<lambda>ts c. ts) (\<lambda>d. 0) (\<lambda>n. ''1e+21'')
     \<lparr>zto_id = 42, zto_subject = ''Printer'', zto_status = ''open'', zto_description = ''It burns'',
      zto_due_at = None, zto_updated_at = ''2024-01-01'', zto_priority = None,
      zto_assignee_id = Some 7, zto_type = Some ''incident'', zto_tags = Some [''vip''],
      zto_custom_fields = None\<rparr> ''conn'' None
   = Inr \<lparr>uto_remote_id = ''42'', uto_name = ''Printer'', uto_status = ''OPEN'',
          uto_description = ''It burns'', uto_due_date = None, uto_parent_ticket = None,
          uto_completed_at = 0, uto_priority = None, uto_field_mappings = [],
          uto_assigned_to = None, uto_type = None, uto_tags = Some [''vip'']\<rparr>
   \<and> truthy_num (Some 7) \<and> truthy_str (Some ''incident'')"
proof -
  let ?t = "\<lparr>zto_id = 42, zto_subject = ''Printer'', zto_status = ''open'',
      zto_description = ''It burns'',
      zto_due_at = None, zto_updated_at = ''2024-01-01'', zto_priority = None,
      zto_assignee_id = Some 7, zto_type = Some ''incident'', zto_tags = Some [''vip''],
      zto_custom_fields = None\<rparr>"
  obtain u where u: "mapSingleTicketToUnified (\<lambda>r c. Some ''user-1'') (\<lambda>ts c. ts) (\<lambda>d. 0)
      (\<lambda>n. ''1e+21'') ?t ''conn'' None = Inr (u :: string unified_ticket_output)"
    by (simp add: mapSingleTicketToUnified_def ticket_field_mappings_def Let_def)
  have d: "String_of_int (\<lambda>n. ''1e+21'') 42 = ''42''"
    by code_simp
  from mapSingleTicketToUnified_opts_exclusive [OF u, of "[''vip'']"]
  have "uto_tags u = Some [''vip''] \<and> uto_assigned_to u = None \<and> uto_type u = None"
    by simp
  with u d show ?thesis
    by (auto simp: mapSingleTicketToUnified_def ticket_field_mappings_def Let_def
          truthy_num_def truthy_str_def)
qed


section \<open>Tables as lists\<close>

lemma find_Some_nth:
  "find P xs = Some x \<Longrightarrow> \<exists>i<length xs. xs ! i = x \<and> P x \<and> (\<forall>j<i. \<not> P (xs ! j))"
  by (auto simp: find_Some_iff)

lemma update_first_nth:
  "i < length xs \<Longrightarrow> P (xs ! i) \<Longrightarrow> (\<forall>j<i. \<not> P (xs ! j)) \<Longrightarrow>
   update_first P f xs = xs[i := f (xs ! i)]"
proof (induction xs arbitrary: i)
  case Nil
  then show ?case by simp
next
  case (Cons x xs)
  show ?case
  proof (cases i)
    case 0
    with Cons.prems show ?thesis by simp
  next
    case (Suc k)
    with Cons.prems have "\<not> P x" by auto
    moreover from Suc Cons.prems have "update_first P f xs = xs[k := f (xs ! k)]"
      by (intro Cons.IH) auto
    ultimately show ?thesis using Suc by simp
  qed
qed

lemma update_first_distinct:
  assumes "distinct (map k xs)" "i < length xs"
  shows "update_first (\<lambda>y. k y = k (xs ! i)) f xs = xs[i := f (xs ! i)]"
proof (rule update_first_nth)
  show "\<forall>j<i. k (xs ! j) \<noteq> k (xs ! i)"
    using assms by (auto simp: distinct_conv_nth)
qed (use assms in auto)

lemma find_distinct_nth:
  assumes "distinct (map k xs)" "i < length xs"
  shows "find (\<lambda>y. k y = k (xs ! i)) xs = Some (xs ! i)"
  using assms by (auto simp: find_Some_iff distinct_conv_nth intro!: exI [of _ i])

lemma prisma_update_distinct:
  assumes "distinct (map k xs)" "i < length xs"
  shows "prisma_update (\<lambda>y. k y = k (xs ! i)) f xs = Inr (f (xs ! i), xs[i := f (xs ! i)])"
  by (simp add: prisma_update_def find_distinct_nth [OF assms] update_first_distinct [OF assms])

section \<open>Properties of the password reset\<close>

text \<open>
  Claim C6.  With unique user ids, \<open>resetPassword\<close> succeeds exactly when some user has
  the token as \<open>reset_token\<close> and a \<open>reset_token_expiry\<close> after the time read by
  \<open>new Date()\<close>.  On success the table differs at one such user only, who gets the
  bcrypt hash of the new password and loses token and expiry; otherwise the call throws
  \<open>BadRequestException\<close> and the table of users is unchanged.
\<close>

theorem resetPassword_correct:
  assumes "distinct (map u_id_user (users s))"
  shows "((\<exists>msg. fst (resetPassword bcrypt_hash token newPassword s) = Inr msg)
            \<longleftrightarrow> (\<exists>u\<in>set (users s). token_valid token (date_stream s (date_next s)) u))
       \<and> ((\<exists>u\<in>set (users s). token_valid token (date_stream s (date_next s)) u) \<longrightarrow>
            (\<exists>i<length (users s).
               token_valid token (date_stream s (date_next s)) (users s ! i)
               \<and> users (snd (resetPassword bcrypt_hash token newPassword s))
                 = (users s)[i := (users s ! i)\<lparr>u_password_hash := bcrypt_hash newPassword 10,
                      u_reset_token := None, u_reset_token_expiry := None\<rparr>]))
       \<and> ((\<forall>u\<in>set (users s). \<not> token_valid token (date_stream s (date_next s)) u) \<longrightarrow>
            fst (resetPassword bcrypt_hash token newPassword s) = Inl BadRequestException
            \<and> users (snd (resetPassword bcrypt_hash token newPassword s)) = users s)"
proof (cases "find (token_valid token (date_stream s (date_next s))) (users s)")
  case None
  then have "\<forall>u\<in>set (users s). \<not> token_valid token (date_stream s (date_next s)) u"
    by (auto simp: find_None_iff)
  with None show ?thesis
    by (simp add: resetPassword_def new_Date_def)
next
  case (Some user)
  from find_Some_nth [OF Some] obtain i where i: "i < length (users s)" "users s ! i = user"
    "token_valid token (date_stream s (date_next s)) user" by blast
  have upd: "prisma_update (\<lambda>u. u_id_user u = u_id_user user) f (users s)
             = Inr (f user, (users s)[i := f user])" for f
    using prisma_update_distinct [OF assms i(1), of f] i(2) by simp
  have ex: "\<exists>u\<in>set (users s). token_valid token (date_stream s (date_next s)) u"
    using i by (metis nth_mem)
  show ?thesis
    using Some upd ex i
    by (auto simp: resetPassword_def new_Date_def)
qed

theorem resetPassword_correct_witness:
  "distinct (map u_id_user (users auth_db))
   \<and> (\<exists>msg. fst (resetPassword (\<lambda>p cost. ''hash of '' @ p) ''tok'' ''new'' auth_db) = Inr msg)
   \<and> users (snd (resetPassword (\<lambda>p cost. ''hash of '' @ p) ''tok'' ''new'' auth_db))
       = [example_user ''u1'' None None,
          (example_user ''u2'' None None)\<lparr>u_password_hash := ''hash of new''\<rparr>,
          example_user ''u3'' (Some ''tok'') (Some 500)]
   \<and> fst (resetPassword (\<lambda>p cost. ''hash of '' @ p) ''nope'' ''new'' auth_db) = Inl BadRequestException
   \<and> users (snd (resetPassword (\<lambda>p cost. ''hash of '' @ p) ''nope'' ''new'' auth_db)) = users auth_db"
proof -
  have d: "distinct (map u_id_user (users auth_db))"
    by (simp add: auth_db_def empty_db_def example_user_def)
  note t = resetPassword_correct [OF d, of "\<lambda>p cost. ''hash of '' @ p" _ "''new''"]
  have v: "\<exists>u\<in>set (users auth_db). token_valid ''tok'' (date_stream auth_db (date_next auth_db)) u"
    by (simp add: auth_db_def empty_db_def example_user_def token_valid_def)
  have a: "\<exists>msg. fst (resetPassword (\<lambda>p cost. ''hash of '' @ p) ''tok'' ''new'' auth_db) = Inr msg"
    using conjunct1 [OF t [of "''tok''"]] v by (rule iffD2)
  have n: "\<forall>u\<in>set (users auth_db). \<not> token_valid ''nope'' (date_stream auth_db (date_next auth_db)) u"
    by (simp add: auth_db_def empty_db_def example_user_def token_valid_def)
  note b = mp [OF conjunct2 [OF conjunct2 [OF t [of "''nope''"]]] n]
  have c: "users (snd (resetPassword (\<lambda>p cost. ''hash of '' @ p) ''tok'' ''new'' auth_db))
       = [example_user ''u1'' None None,
          (example_user ''u2'' None None)\<lparr>u_password_hash := ''hash of new''\<rparr>,
          example_user ''u3'' (Some ''tok'') (Some 500)]"
    by (simp add: resetPassword_def new_Date_def prisma_update_def auth_db_def empty_db_def
          example_user_def token_valid_def)
  from d a c b show ?thesis by (intro conjI) simp_all
qed

section \<open>Properties of the action service\<close>

text \<open>
  Claim C2, as amended.  \<open>addAction\<close>, \<open>getAction\<close>, \<open>getActions\<close> and
  \<open>updateInterview\<close> are not implemented: for every input each of them returns
  \<open>undefined\<close> and leaves the database as it was.
\<close>

theorem action_service_stubs:
  "addAction unifiedActionData connectionId integrationId linkedUserId remote_data_flag s = (None, s)
   \<and> getAction id_actioning_action remote_data_flag s = (None, s)
   \<and> getActions connection_id integrationId linkedUserId limit remote_data_flag cursor s = (None, s)
   \<and> updateInterview ident updateInterviewData s = (None, s)"
  by (simp add: addAction_def getAction_def getActions_def updateInterview_def)

text \<open>
  Claim C2 as stated fails: on the empty database \<open>addAction\<close> returns no unified
  action and persists nothing, and neither \<open>getAction\<close>, \<open>getActions\<close> nor
  \<open>updateInterview\<close> returns a unified object.
\<close>

theorem action_service_counterexample:
  "fst (addAction ''action'' ''c1'' ''hubspot'' ''lu1'' None empty_db) = (None :: string option)
   \<and> snd (addAction ''action'' ''c1'' ''hubspot'' ''lu1'' None empty_db :: string option \<times> db) = empty_db
   \<and> fst (getAction ''a1'' None empty_db) = (None :: string option)
   \<and> fst (getActions ''c1'' ''hubspot'' ''lu1'' 10 None None empty_db) = (None :: string list option)
   \<and> fst (updateInterview ''a'' ''data'' interviews_db) = None"
  by (simp add: addAction_def getAction_def getActions_def updateInterview_def)

section \<open>Properties of the interview pages\<close>

lemma map_all_Inr:
  "map_all f xs = Inr ys \<Longrightarrow> list_all2 (\<lambda>x y. f x = Inr y) xs ys"
  by (induction xs arbitrary: ys) (auto split: sum.splits)

lemma map_all_Inr_ex:
  "(\<forall>x\<in>set xs. \<exists>y. f x = Inr y) \<Longrightarrow> \<exists>ys. map_all f xs = Inr ys"
  by (induction xs) (auto split: sum.splits)

lemma unify_interview_id:
  "unify_interview dt s r = Inr u \<Longrightarrow> uio_id u = id_ats_interview r \<and> uio_created_at u = i_created_at r"
  by (auto simp: unify_interview_def split: sum.splits)

lemma with_remote_data_id:
  "with_remote_data jv s u = Inr u' \<Longrightarrow> uio_id u' = uio_id u \<and> uio_created_at u' = uio_created_at u"
  by (auto simp: with_remote_data_def split: option.splits if_splits)

lemma list_all2_unify_ids:
  "list_all2 (\<lambda>x y. unify_interview dt s x = Inr y) xs ys \<Longrightarrow>
   map uio_id ys = map id_ats_interview xs \<and> map uio_created_at ys = map i_created_at xs"
  by (induction rule: list_all2_induct) (auto dest: unify_interview_id)

lemma list_all2_remote_ids:
  "list_all2 (\<lambda>x y. with_remote_data jv s x = Inr y) xs ys \<Longrightarrow>
   map uio_id ys = map uio_id xs \<and> map uio_created_at ys = map uio_created_at xs"
  by (induction rule: list_all2_induct) (auto dest: with_remote_data_id)

lemma butlast_take_Suc: "limit < length xs \<Longrightarrow> butlast (take (Suc limit) xs) = take limit xs"
  by (simp add: butlast_take)

lemma last_take_Suc: "limit < length xs \<Longrightarrow> last (take (Suc limit) xs) = xs ! limit"
  by (simp add: take_Suc_conv_app_nth)

lemma sorted_map_dropWhile: "sorted (map f xs) \<Longrightarrow> sorted (map f (dropWhile P xs))"
  by (induction xs) auto

lemma sorted_map_take: "sorted (map f xs) \<Longrightarrow> sorted (map f (take n xs))"
  by (simp add: take_map [symmetric] sorted_wrt_take)

lemma interviews_from_sorted: "sorted (map i_created_at (interviews_from s c cur))"
  by (simp add: interviews_from_def ordered_interviews_def Let_def sorted_map_dropWhile)

lemma interviews_from_set:
  "r \<in> set (interviews_from s c cur) \<Longrightarrow> r \<in> set (ats_interviews s) \<and> i_id_connection r = c"
  by (auto simp: interviews_from_def ordered_interviews_def Let_def dest: set_dropWhileD split: if_splits)

lemma findMany_interviews_Suc:
  "0 \<le> limit \<Longrightarrow>
   findMany_interviews s c cur (limit + 1) = take (Suc (nat limit)) (interviews_from s c cur)"
  by (simp add: findMany_interviews_def nat_add_distrib)

lemma length_take_Suc_eq:
  "0 \<le> limit \<Longrightarrow> int (length (take (Suc (nat limit)) xs)) = limit + 1 \<longleftrightarrow> nat limit < length xs"
  by (auto simp: min_def)

lemma getInterviews_unfold:
  assumes "0 \<le> limit"
  shows "getInterviews dt jv c integ lu limit rdf cur s =
     (if truthy_str cur
         \<and> find (\<lambda>r. i_id_connection r = c \<and> id_ats_interview r = the cur) (ats_interviews s) = None
      then (Inl ReferenceError, s)
      else case map_all (unify_interview dt s) (take (nat limit) (interviews_from s c cur)) of
             Inl e \<Rightarrow> (Inl e, s)
           | Inr us \<Rightarrow>
               (case (if truthy_bool rdf then map_all (with_remote_data jv s) us else Inr us) of
                  Inl e \<Rightarrow> (Inl e, s)
                | Inr res \<Rightarrow>
                    (Inr \<lparr>pg_data = res,
                          pg_prev_cursor = (if truthy_str cur then Some (base64 (the cur)) else None),
                          pg_next_cursor =
                            (if nat limit < length (interviews_from s c cur)
                             then Some (base64 (id_ats_interview (interviews_from s c cur ! nat limit)))
                             else None)\<rparr>,
                     s\<lparr>uuid_next := Suc (uuid_next s), date_next := Suc (date_next s),
                       events := events s @ [\<lparr>
                               id_event = uuid_stream s (uuid_next s), ev_status = ''success'',
                               ev_type = ''ats.interview.pull'', ev_method = ''GET'',
                               ev_url = ''/ats/interviews'', ev_provider = integ,
                               ev_direction = ''0'', ev_timestamp = date_stream s (date_next s),
                               ev_id_linked_user = lu\<rparr>]\<rparr>)))"
proof (cases "nat limit < length (interviews_from s c cur)")
  case True
  then have ne: "interviews_from s c cur \<noteq> []" by auto
  from True show ?thesis
    unfolding getInterviews_def Let_def uuidv4_def new_Date_def
      findMany_interviews_Suc [OF assms] length_take_Suc_eq [OF assms]
    by (simp add: butlast_take_Suc last_take_Suc ne split: sum.split)
next
  case False
  then show ?thesis
    unfolding getInterviews_def Let_def uuidv4_def new_Date_def
      findMany_interviews_Suc [OF assms] length_take_Suc_eq [OF assms]
    by (simp split: sum.split)
qed

lemma getInterviews_tables:
  "ats_interviews (snd (getInterviews dt jv c integ lu limit rdf cur s)) = ats_interviews s"
  by (simp add: getInterviews_def Let_def uuidv4_def new_Date_def split: sum.split)

lemma getInterviews_ReferenceError:
  "fst (getInterviews dt jv c integ lu limit rdf cur s) = Inl ReferenceError \<longleftrightarrow>
   truthy_str cur
   \<and> find (\<lambda>r. i_id_connection r = c \<and> id_ats_interview r = the cur) (ats_interviews s) = None"
proof -
  have fm: "fieldMappingsMap s vs m \<noteq> Inl ReferenceError" for vs m
    by (induction vs arbitrary: m) (auto split: option.splits)
  have u: "unify_interview dt s r \<noteq> Inl ReferenceError" for r
    using fm by (auto simp: unify_interview_def split: sum.splits)
  have w: "with_remote_data jv s x \<noteq> Inl ReferenceError" for x
    by (auto simp: with_remote_data_def split: option.splits)
  have m: "(\<And>x. f x \<noteq> Inl ReferenceError) \<Longrightarrow> map_all f xs \<noteq> Inl ReferenceError" for f :: "'a \<Rightarrow> error + 'b" and xs
    by (induction xs) (auto split: sum.splits)
  show ?thesis
    using m [of "unify_interview dt s", OF u] m [of "with_remote_data jv s", OF w]
    by (auto simp: getInterviews_def Let_def uuidv4_def new_Date_def split: sum.splits)
qed

lemma getInterviews_next_nonneg:
  assumes "fst (getInterviews dt jv c integ lu limit rdf cur s) = Inr page"
    and "pg_next_cursor page \<noteq> None"
  shows "0 \<le> limit"
proof (rule ccontr)
  assume "\<not> 0 \<le> limit"
  then have l: "limit < 0" by simp
  let ?xs = "findMany_interviews s c cur (limit + 1)"
  show False
  proof (cases "int (length ?xs) = limit + 1")
    case True
    have "0 \<le> int (length ?xs)" by simp
    with True l have "limit = - 1" by arith
    with True have "limit = - 1" "?xs = []" by auto
    with assms(1) show False
      by (auto simp: getInterviews_def Let_def split: if_splits)
  next
    case False
    with assms show False
      by (auto simp: getInterviews_def Let_def uuidv4_def new_Date_def split: if_splits sum.splits)
  qed
qed

lemma getInterviews_Inr:
  assumes "0 \<le> limit" "fst (getInterviews dt jv c integ lu limit rdf cur s) = Inr page"
  shows "map uio_id (pg_data page) = map id_ats_interview (take (nat limit) (interviews_from s c cur))
       \<and> map uio_created_at (pg_data page) = map i_created_at (take (nat limit) (interviews_from s c cur))
       \<and> pg_next_cursor page =
           (if nat limit < length (interviews_from s c cur)
            then Some (base64 (id_ats_interview (interviews_from s c cur ! nat limit))) else None)
       \<and> pg_prev_cursor page = (if truthy_str cur then Some (base64 (the cur)) else None)"
proof -
  let ?xs = "interviews_from s c cur"
  note un = getInterviews_unfold [OF assms(1)]
  from assms(2) obtain us where us: "map_all (unify_interview dt s) (take (nat limit) ?xs) = Inr us"
    by (auto simp: un split: if_splits sum.splits)
  from assms(2) us obtain res where res:
      "(if truthy_bool rdf then map_all (with_remote_data jv s) us else Inr us) = Inr res"
    by (auto simp: un split: if_splits sum.splits)
  from assms(2) us res have page: "pg_data page = res"
      "pg_next_cursor page = (if nat limit < length ?xs
            then Some (base64 (id_ats_interview (?xs ! nat limit))) else None)"
      "pg_prev_cursor page = (if truthy_str cur then Some (base64 (the cur)) else None)"
    by (auto simp: un split: if_splits sum.splits)
  have "map uio_id us = map id_ats_interview (take (nat limit) ?xs)
      \<and> map uio_created_at us = map i_created_at (take (nat limit) ?xs)"
    using list_all2_unify_ids [OF map_all_Inr [OF us]] .
  moreover have "map uio_id res = map uio_id us \<and> map uio_created_at res = map uio_created_at us"
    using res list_all2_remote_ids [OF map_all_Inr, of jv s us res] by (auto split: if_splits)
  ultimately show ?thesis using page by simp
qed

lemma fieldMappingsMap_Inr:
  "(\<forall>v\<in>set vs. \<exists>a\<in>set (attribute s). id_attribute a = v_id_attribute v) \<Longrightarrow>
   \<exists>fm. fieldMappingsMap s vs m = Inr fm"
proof (induction vs arbitrary: m)
  case Nil
  then show ?case by simp
next
  case (Cons v vs)
  then obtain a where "a \<in> set (attribute s)" "id_attribute a = v_id_attribute v" by auto
  then have "find (\<lambda>a. id_attribute a = v_id_attribute v) (attribute s) \<noteq> None"
    by (auto simp: find_None_iff)
  with Cons show ?case by (auto split: option.splits)
qed

lemma unify_interview_Inr:
  "(\<forall>v\<in>set (value_rows s). \<exists>a\<in>set (attribute s). id_attribute a = v_id_attribute v) \<Longrightarrow>
   \<exists>u. unify_interview dt s r = Inr u"
  using fieldMappingsMap_Inr [of "values_of_owner s (id_ats_interview r)" s "[]"]
  by (auto simp: unify_interview_def values_of_owner_def split: sum.splits)

lemma with_remote_data_Inr:
  assumes "\<exists>d\<in>set (remote_data s). rd_ressource_owner_id d = uio_id u"
    and "\<forall>d\<in>set (remote_data s). \<forall>t. rd_data d = Some t \<longrightarrow> jv t"
  shows "\<exists>u'. with_remote_data jv s u = Inr u'"
proof (cases "find (\<lambda>r. rd_ressource_owner_id r = uio_id u) (remote_data s)")
  case None
  with assms(1) show ?thesis by (auto simp: find_None_iff)
next
  case (Some resp)
  then have "resp \<in> set (remote_data s)" by (auto simp: find_Some_iff)
  with assms(2) have "\<forall>t. rd_data resp = Some t \<longrightarrow> jv t" by blast
  with Some show ?thesis by (auto simp: with_remote_data_def split: option.splits)
qed

lemma count_list_insort_key: "count_list (insort_key f x xs) r = count_list (x # xs) r"
  by (induction xs) auto

lemma count_list_sort_key: "count_list (sort_key f xs) r = count_list xs r"
  by (induction xs) (auto simp: count_list_insort_key)

lemma count_list_filter: "count_list (filter P xs) r = (if P r then count_list xs r else 0)"
  by (induction xs) auto

lemma ordered_interviews_count:
  "count_list (ordered_interviews s c) r
   = (if i_id_connection r = c then count_list (ats_interviews s) r else 0)"
  by (simp add: ordered_interviews_def count_list_sort_key count_list_filter)

lemma ordered_interviews_sorted: "sorted (map i_created_at (ordered_interviews s c))"
  by (simp add: ordered_interviews_def)

lemma ordered_interviews_set:
  "set (ordered_interviews s c) = {r \<in> set (ats_interviews s). i_id_connection r = c}"
  by (auto simp: ordered_interviews_def)

lemma first_position:
  assumes "\<exists>r\<in>set xs. k r = v"
  shows "\<exists>p. p < length xs \<and> k (xs ! p) = v \<and> (\<forall>j<p. k (xs ! j) \<noteq> v)
           \<and> dropWhile (\<lambda>r. k r \<noteq> v) xs = drop p xs"
proof -
  let ?p = "length (takeWhile (\<lambda>r. k r \<noteq> v) xs)"
  have "length (takeWhile P ys) = length ys \<Longrightarrow> \<forall>x\<in>set ys. P x" for P and ys :: "'a list"
    by (induction ys) (auto split: if_splits)
  from this [of "\<lambda>r. k r \<noteq> v" xs] assms have "?p \<noteq> length xs" by auto
  moreover have "?p \<le> length xs" by (rule length_takeWhile_le)
  ultimately have lt: "?p < length xs" by simp
  then have "\<not> (k (xs ! ?p) \<noteq> v)" by (rule nth_length_takeWhile)
  moreover have "\<forall>j<?p. k (xs ! j) \<noteq> v"
  proof (intro allI impI)
    fix j assume j: "j < ?p"
    then have "takeWhile (\<lambda>r. k r \<noteq> v) xs ! j = xs ! j" by (rule takeWhile_nth)
    moreover from j have "takeWhile (\<lambda>r. k r \<noteq> v) xs ! j \<in> set (takeWhile (\<lambda>r. k r \<noteq> v) xs)"
      by (rule nth_mem)
    ultimately show "k (xs ! j) \<noteq> v" by (auto dest: set_takeWhileD)
  qed
  moreover have "dropWhile (\<lambda>r. k r \<noteq> v) xs = drop ?p xs" by (rule dropWhile_eq_drop)
  ultimately show ?thesis using lt by blast
qed

lemma cursor_position:
  assumes "truthy_str cur \<longrightarrow>
           find (\<lambda>r. i_id_connection r = c \<and> id_ats_interview r = the cur) (ats_interviews s) \<noteq> None"
  shows "\<exists>p. (if truthy_str cur
              then p < length (ordered_interviews s c)
                   \<and> id_ats_interview (ordered_interviews s c ! p) = the cur
                   \<and> (\<forall>j<p. id_ats_interview (ordered_interviews s c ! j) \<noteq> the cur)
              else p = 0)
           \<and> interviews_from s c cur = drop p (ordered_interviews s c)"
proof (cases "truthy_str cur")
  case True
  with assms obtain r where "r \<in> set (ats_interviews s)" "i_id_connection r = c"
      "id_ats_interview r = the cur"
    by (auto simp: find_None_iff)
  then have "\<exists>r\<in>set (ordered_interviews s c). id_ats_interview r = the cur"
    by (auto simp: ordered_interviews_set)
  from first_position [OF this] True show ?thesis
    by (auto simp: interviews_from_def Let_def)
next
  case False
  then show ?thesis by (simp add: interviews_from_def Let_def)
qed

text \<open>
  Claim C4, as amended.  Let the limit be an integer that is not negative.  A page
  returned by \<open>getInterviews\<close> holds at most \<open>limit\<close> interviews, all of the
  connection, in ascending order of \<open>created_at\<close>.  The cursor position is stated on
  the list of the interviews of the connection in ascending order of \<open>created_at\<close>,
  which holds every interview of the connection as often as the table does and nothing
  else: the position \<open>p\<close> is that of the first interview whose id is the cursor (the
  start of the list without a cursor), the page is the \<open>limit\<close> interviews from \<open>p\<close>
  on, and \<open>next_cursor\<close> is not null exactly when more than \<open>limit\<close> interviews lie
  from \<open>p\<close> on.  A cursor that names no interview of the connection gives a
  \<open>ReferenceError\<close> and no change of state.  The call returns a page whenever the cursor
  check passes, every value has its attribute and, when remote data is asked for, every
  interview has a remote data row and the remote data that is stored is JSON.
\<close>

theorem getInterviews_page:
  assumes "0 \<le> limit"
  shows
  "(\<forall>page. fst (getInterviews date_text JSON_valid connection_id integrationId linkedUserId limit
                 remote_data_flag cursor s) = Inr page \<longrightarrow>
       length (pg_data page) \<le> nat limit
     \<and> (\<forall>d\<in>set (pg_data page). \<exists>r\<in>set (ats_interviews s).
           id_ats_interview r = uio_id d \<and> i_id_connection r = connection_id)
     \<and> sorted (map uio_created_at (pg_data page))
     \<and> (\<forall>r. count_list (ordered_interviews s connection_id) r
              = (if i_id_connection r = connection_id then count_list (ats_interviews s) r else 0))
     \<and> sorted (map i_created_at (ordered_interviews s connection_id))
     \<and> (\<exists>p. (if truthy_str cursor
               then p < length (ordered_interviews s connection_id)
                    \<and> id_ats_interview (ordered_interviews s connection_id ! p) = the cursor
                    \<and> (\<forall>j<p. id_ats_interview (ordered_interviews s connection_id ! j) \<noteq> the cursor)
               else p = 0)
            \<and> map uio_id (pg_data page)
                = map id_ats_interview (take (nat limit) (drop p (ordered_interviews s connection_id)))
            \<and> (pg_next_cursor page \<noteq> None
                 \<longleftrightarrow> p + nat limit < length (ordered_interviews s connection_id))))
   \<and> (truthy_str cursor
       \<and> (\<forall>r\<in>set (ats_interviews s).
             \<not> (i_id_connection r = connection_id \<and> id_ats_interview r = the cursor)) \<longrightarrow>
       getInterviews date_text JSON_valid connection_id integrationId linkedUserId limit
         remote_data_flag cursor s = (Inl ReferenceError, s))
   \<and> ((truthy_str cursor \<longrightarrow>
          (\<exists>r\<in>set (ats_interviews s).
             i_id_connection r = connection_id \<and> id_ats_interview r = the cursor))
       \<and> (\<forall>v\<in>set (value_rows s). \<exists>a\<in>set (attribute s). id_attribute a = v_id_attribute v)
       \<and> (truthy_bool remote_data_flag \<longrightarrow>
            (\<forall>r\<in>set (ats_interviews s). \<exists>d\<in>set (remote_data s).
               rd_ressource_owner_id d = id_ats_interview r)
            \<and> (\<forall>d\<in>set (remote_data s). \<forall>t. rd_data d = Some t \<longrightarrow> JSON_valid t)) \<longrightarrow>
       (\<exists>page. fst (getInterviews date_text JSON_valid connection_id integrationId linkedUserId limit
                      remote_data_flag cursor s) = Inr page))"
proof (intro conjI allI impI)
  fix page
  assume p: "fst (getInterviews date_text JSON_valid connection_id integrationId linkedUserId limit
                 remote_data_flag cursor s) = Inr page"
  let ?xs = "interviews_from s connection_id cursor"
  let ?ord = "ordered_interviews s connection_id"
  note r = getInterviews_Inr [OF assms p]
  from r have ids: "map uio_id (pg_data page) = map id_ats_interview (take (nat limit) ?xs)"
    and cr: "map uio_created_at (pg_data page) = map i_created_at (take (nat limit) ?xs)" by simp_all
  from r have nx: "pg_next_cursor page \<noteq> None \<longleftrightarrow> nat limit < length ?xs" by simp
  from ids have "length (pg_data page) = length (take (nat limit) ?xs)"
    by (metis length_map)
  then show "length (pg_data page) \<le> nat limit" by simp
  show "sorted (map uio_created_at (pg_data page))"
    unfolding cr by (rule sorted_map_take) (rule interviews_from_sorted)
  show "\<forall>d\<in>set (pg_data page). \<exists>r\<in>set (ats_interviews s).
           id_ats_interview r = uio_id d \<and> i_id_connection r = connection_id"
  proof
    fix d assume "d \<in> set (pg_data page)"
    then have "uio_id d \<in> set (map id_ats_interview (take (nat limit) ?xs))"
      unfolding ids [symmetric] by simp
    then obtain r where "r \<in> set (take (nat limit) ?xs)" "id_ats_interview r = uio_id d" by auto
    then show "\<exists>r\<in>set (ats_interviews s). id_ats_interview r = uio_id d \<and> i_id_connection r = connection_id"
      using interviews_from_set [of r s connection_id cursor] by (auto dest: in_set_takeD)
  qed
  show "sorted (map i_created_at ?ord)" by (rule ordered_interviews_sorted)
  show "count_list ?ord r
          = (if i_id_connection r = connection_id then count_list (ats_interviews s) r else 0)" for r
    by (rule ordered_interviews_count)
  from p have "fst (getInterviews date_text JSON_valid connection_id integrationId linkedUserId limit
                 remote_data_flag cursor s) \<noteq> Inl ReferenceError" by simp
  then have "truthy_str cursor \<longrightarrow>
       find (\<lambda>r. i_id_connection r = connection_id \<and> id_ats_interview r = the cursor)
         (ats_interviews s) \<noteq> None"
    unfolding getInterviews_ReferenceError by simp
  from cursor_position [OF this] obtain q where
    q: "if truthy_str cursor
        then q < length ?ord \<and> id_ats_interview (?ord ! q) = the cursor
             \<and> (\<forall>j<q. id_ats_interview (?ord ! j) \<noteq> the cursor)
        else q = 0"
    and fr: "?xs = drop q ?ord" by blast
  have l: "nat limit < length ?xs \<longleftrightarrow> q + nat limit < length ?ord"
    unfolding fr by auto
  show "\<exists>p. (if truthy_str cursor
               then p < length ?ord \<and> id_ats_interview (?ord ! p) = the cursor
                    \<and> (\<forall>j<p. id_ats_interview (?ord ! j) \<noteq> the cursor)
               else p = 0)
            \<and> map uio_id (pg_data page) = map id_ats_interview (take (nat limit) (drop p ?ord))
            \<and> (pg_next_cursor page \<noteq> None \<longleftrightarrow> p + nat limit < length ?ord)"
  proof (intro exI [of _ q] conjI)
    show "if truthy_str cursor
        then q < length ?ord \<and> id_ats_interview (?ord ! q) = the cursor
             \<and> (\<forall>j<q. id_ats_interview (?ord ! j) \<noteq> the cursor)
        else q = 0" by (rule q)
    show "map uio_id (pg_data page) = map id_ats_interview (take (nat limit) (drop q ?ord))"
      using ids unfolding fr .
    show "pg_next_cursor page \<noteq> None \<longleftrightarrow> q + nat limit < length ?ord"
      using nx l by simp
  qed
next
  assume "truthy_str cursor
       \<and> (\<forall>r\<in>set (ats_interviews s).
             \<not> (i_id_connection r = connection_id \<and> id_ats_interview r = the cursor))"
  then show "getInterviews date_text JSON_valid connection_id integrationId linkedUserId limit
         remote_data_flag cursor s = (Inl ReferenceError, s)"
    by (simp add: getInterviews_def find_None_iff)
next
  assume a: "(truthy_str cursor \<longrightarrow>
          (\<exists>r\<in>set (ats_interviews s).
             i_id_connection r = connection_id \<and> id_ats_interview r = the cursor))
       \<and> (\<forall>v\<in>set (value_rows s). \<exists>a\<in>set (attribute s). id_attribute a = v_id_attribute v)
       \<and> (truthy_bool remote_data_flag \<longrightarrow>
            (\<forall>r\<in>set (ats_interviews s). \<exists>d\<in>set (remote_data s).
               rd_ressource_owner_id d = id_ats_interview r)
            \<and> (\<forall>d\<in>set (remote_data s). \<forall>t. rd_data d = Some t \<longrightarrow> JSON_valid t))"
  let ?xs = "take (nat limit) (interviews_from s connection_id cursor)"
  from a have chk: "\<not> (truthy_str cursor
         \<and> find (\<lambda>r. i_id_connection r = connection_id \<and> id_ats_interview r = the cursor)
              (ats_interviews s) = None)"
    by (auto simp: find_None_iff)
  from a have "\<forall>x\<in>set ?xs. \<exists>y. unify_interview date_text s x = Inr y"
    using unify_interview_Inr [of s date_text] by simp
  then obtain us where us: "map_all (unify_interview date_text s) ?xs = Inr us"
    using map_all_Inr_ex [of ?xs "unify_interview date_text s"] by blast
  have "\<exists>res. (if truthy_bool remote_data_flag then map_all (with_remote_data JSON_valid s) us
                else Inr us) = Inr res"
  proof (cases "truthy_bool remote_data_flag")
    case True
    with a have rows: "\<forall>r\<in>set (ats_interviews s). \<exists>d\<in>set (remote_data s).
               rd_ressource_owner_id d = id_ats_interview r"
      and valid: "\<forall>d\<in>set (remote_data s). \<forall>t. rd_data d = Some t \<longrightarrow> JSON_valid t"
      by simp_all
    have "\<forall>u\<in>set us. \<exists>u'. with_remote_data JSON_valid s u = Inr u'"
    proof
      fix u assume "u \<in> set us"
      then have "uio_id u \<in> set (map id_ats_interview ?xs)"
        using list_all2_unify_ids [OF map_all_Inr [OF us]] by (metis image_eqI set_map)
      then obtain r where "r \<in> set ?xs" "id_ats_interview r = uio_id u" by auto
      then have "r \<in> set (ats_interviews s)"
        using interviews_from_set [of r s connection_id cursor] by (auto dest: in_set_takeD)
      with rows obtain d where "d \<in> set (remote_data s)" "rd_ressource_owner_id d = id_ats_interview r"
        by blast
      with \<open>id_ats_interview r = uio_id u\<close>
      have "\<exists>d\<in>set (remote_data s). rd_ressource_owner_id d = uio_id u"
        by (auto intro: bexI [of _ d])
      then show "\<exists>u'. with_remote_data JSON_valid s u = Inr u'"
        using valid by (rule with_remote_data_Inr)
    qed
    with True show ?thesis using map_all_Inr_ex [of us "with_remote_data JSON_valid s"] by simp
  next
    case False
    then show ?thesis by simp
  qed
  then obtain res where "(if truthy_bool remote_data_flag
      then map_all (with_remote_data JSON_valid s) us else Inr us) = Inr res" ..
  with chk us show "\<exists>page. fst (getInterviews date_text JSON_valid connection_id integrationId
                      linkedUserId limit remote_data_flag cursor s) = Inr page"
    by (simp add: getInterviews_unfold [OF assms])
qed

lemma interviews_db_ordered:
  "ordered_interviews interviews_db ''c1''
   = [example_interview ''e'' ''c1'' 5, example_interview ''a'' ''c1'' 10, example_interview ''b'' ''c1'' 20]"
  by code_simp

lemma interviews_db_position:
  assumes "p < length (ordered_interviews interviews_db ''c1'')
           \<and> id_ats_interview (ordered_interviews interviews_db ''c1'' ! p) = the (Some v)
           \<and> (\<forall>j<p. id_ats_interview (ordered_interviews interviews_db ''c1'' ! j) \<noteq> the (Some v))"
  shows "(v = ''e'' \<longrightarrow> p = 0) \<and> (v = ''a'' \<longrightarrow> p = 1) \<and> (v = ''b'' \<longrightarrow> p = 2)"
proof -
  from assms have "p < 3" by (simp add: interviews_db_ordered)
  then have "p = 0 \<or> p = 1 \<or> p = 2" by arith
  with assms show ?thesis
    by (elim disjE) (auto simp add: interviews_db_ordered example_interview_def)
qed

lemma interviews_db_rows:
  "(\<forall>v\<in>set (value_rows interviews_db). \<exists>a\<in>set (attribute interviews_db).
       id_attribute a = v_id_attribute v)
   \<and> (\<forall>r\<in>set (ats_interviews interviews_db). \<exists>d\<in>set (remote_data interviews_db).
               rd_ressource_owner_id d = id_ats_interview r)
   \<and> (\<forall>d\<in>set (remote_data interviews_db). \<forall>t. rd_data d = Some t \<longrightarrow> example_JSON_valid t)"
  by (simp add: interviews_db_def empty_db_def example_interview_def example_remote_data_def
        example_JSON_valid_def)

theorem getInterviews_page_witness:
  "(0::int) \<le> 1
   \<and> (\<exists>page. fst (getInterviews example_date_text example_JSON_valid ''c1'' ''greenhouse'' ''lu1'' 1
                    (Some True) (Some ''a'') interviews_db) = Inr page
          \<and> length (pg_data page) \<le> 1 \<and> map uio_id (pg_data page) = [''a'']
          \<and> sorted (map uio_created_at (pg_data page)) \<and> pg_next_cursor page \<noteq> None)
   \<and> (\<exists>page. fst (getInterviews example_date_text example_JSON_valid ''c1'' ''greenhouse'' ''lu1'' 1
                    None None interviews_db) = Inr page
          \<and> map uio_id (pg_data page) = [''e''] \<and> pg_next_cursor page \<noteq> None)
   \<and> (\<exists>page. fst (getInterviews example_date_text example_JSON_valid ''c1'' ''greenhouse'' ''lu1'' 1
                    (Some True) (Some ''b'') interviews_db) = Inr page
          \<and> map uio_id (pg_data page) = [''b''] \<and> pg_next_cursor page = None)
   \<and> getInterviews example_date_text example_JSON_valid ''c1'' ''greenhouse'' ''lu1'' 1 None
        (Some ''zz'') interviews_db
       = (Inl ReferenceError, interviews_db)"
proof -
  have h: "(0::int) \<le> 1" by simp
  note t = getInterviews_page [OF h, where date_text = example_date_text
             and JSON_valid = example_JSON_valid and connection_id = "''c1''"
             and integrationId = "''greenhouse''" and linkedUserId = "''lu1''"
             and s = interviews_db]
  let ?ord = "ordered_interviews interviews_db ''c1''"
  have hyp: "(truthy_str cur \<longrightarrow>
          (\<exists>r\<in>set (ats_interviews interviews_db).
             i_id_connection r = ''c1'' \<and> id_ats_interview r = the cur))
       \<and> (\<forall>v\<in>set (value_rows interviews_db). \<exists>a\<in>set (attribute interviews_db).
             id_attribute a = v_id_attribute v)
       \<and> (truthy_bool flag \<longrightarrow>
            (\<forall>r\<in>set (ats_interviews interviews_db). \<exists>d\<in>set (remote_data interviews_db).
               rd_ressource_owner_id d = id_ats_interview r)
            \<and> (\<forall>d\<in>set (remote_data interviews_db). \<forall>t. rd_data d = Some t \<longrightarrow> example_JSON_valid t))"
    if "cur = None \<or> cur = Some ''a'' \<or> cur = Some ''b''" for cur flag
  proof -
    from that have "truthy_str cur \<longrightarrow>
          (\<exists>r\<in>set (ats_interviews interviews_db).
             i_id_connection r = ''c1'' \<and> id_ats_interview r = the cur)"
      by (elim disjE)
         (simp_all add: truthy_str_def interviews_db_def empty_db_def example_interview_def)
    with interviews_db_rows show ?thesis by simp
  qed
  have "\<exists>page. fst (getInterviews example_date_text example_JSON_valid ''c1'' ''greenhouse'' ''lu1'' 1
                    (Some True) (Some ''a'') interviews_db) = Inr page"
    by (rule mp [OF conjunct2 [OF conjunct2 [OF t [where remote_data_flag = "Some True" and cursor = "Some ''a''"]]]]) (rule hyp, simp)
  then obtain pa where pa: "fst (getInterviews example_date_text example_JSON_valid ''c1''
      ''greenhouse'' ''lu1'' 1 (Some True) (Some ''a'') interviews_db) = Inr pa" ..
  note ra = mp [OF spec [OF conjunct1 [OF t [where remote_data_flag = "Some True" and cursor = "Some ''a''"]]] pa]
  from ra have la: "length (pg_data pa) \<le> 1" and sa: "sorted (map uio_created_at (pg_data pa))"
    by simp_all
  from ra obtain p where
    p: "p < length ?ord \<and> id_ats_interview (?ord ! p) = the (Some ''a'')
        \<and> (\<forall>j<p. id_ats_interview (?ord ! j) \<noteq> the (Some ''a''))"
    and ia: "map uio_id (pg_data pa) = map id_ats_interview (take (nat 1) (drop p ?ord))"
    and na: "pg_next_cursor pa \<noteq> None \<longleftrightarrow> p + nat 1 < length ?ord"
    by (auto simp: truthy_str_def)
  from interviews_db_position [OF p] have "p = 1" by simp
  with ia na have a: "map uio_id (pg_data pa) = [''a'']" "pg_next_cursor pa \<noteq> None"
    by (simp_all add: interviews_db_ordered example_interview_def)
  have "\<exists>page. fst (getInterviews example_date_text example_JSON_valid ''c1'' ''greenhouse'' ''lu1'' 1
                    None None interviews_db) = Inr page"
    by (rule mp [OF conjunct2 [OF conjunct2 [OF t [where remote_data_flag = None and cursor = None]]]]) (rule hyp, simp)
  then obtain pn where pn: "fst (getInterviews example_date_text example_JSON_valid ''c1''
      ''greenhouse'' ''lu1'' 1 None None interviews_db) = Inr pn" ..
  note rn = mp [OF spec [OF conjunct1 [OF t [where remote_data_flag = None and cursor = None]]] pn]
  from rn have n: "map uio_id (pg_data pn) = [''e'']" "pg_next_cursor pn \<noteq> None"
    by (simp_all add: truthy_str_def interviews_db_ordered example_interview_def)
  have "\<exists>page. fst (getInterviews example_date_text example_JSON_valid ''c1'' ''greenhouse'' ''lu1'' 1
                    (Some True) (Some ''b'') interviews_db) = Inr page"
    by (rule mp [OF conjunct2 [OF conjunct2 [OF t [where remote_data_flag = "Some True" and cursor = "Some ''b''"]]]]) (rule hyp, simp)
  then obtain pb where pb: "fst (getInterviews example_date_text example_JSON_valid ''c1''
      ''greenhouse'' ''lu1'' 1 (Some True) (Some ''b'') interviews_db) = Inr pb" ..
  note rb = mp [OF spec [OF conjunct1 [OF t [where remote_data_flag = "Some True" and cursor = "Some ''b''"]]] pb]
  from rb obtain q where
    q: "q < length ?ord \<and> id_ats_interview (?ord ! q) = the (Some ''b'')
        \<and> (\<forall>j<q. id_ats_interview (?ord ! j) \<noteq> the (Some ''b''))"
    and ib: "map uio_id (pg_data pb) = map id_ats_interview (take (nat 1) (drop q ?ord))"
    and nb: "pg_next_cursor pb \<noteq> None \<longleftrightarrow> q + nat 1 < length ?ord"
    by (auto simp: truthy_str_def)
  from interviews_db_position [OF q] have "q = 2" by simp
  with ib nb have b: "map uio_id (pg_data pb) = [''b'']" "pg_next_cursor pb = None"
    by (simp_all add: interviews_db_ordered example_interview_def)
  have z: "getInterviews example_date_text example_JSON_valid ''c1'' ''greenhouse'' ''lu1'' 1 None
        (Some ''zz'') interviews_db = (Inl ReferenceError, interviews_db)"
    by (rule mp [OF conjunct1 [OF conjunct2 [OF t [where remote_data_flag = None and cursor = "Some ''zz''"]]]])
       (simp add: truthy_str_def interviews_db_def empty_db_def example_interview_def)
  from pa la a sa have A: "\<exists>page. fst (getInterviews example_date_text example_JSON_valid ''c1''
        ''greenhouse'' ''lu1'' 1 (Some True) (Some ''a'') interviews_db) = Inr page
          \<and> length (pg_data page) \<le> 1 \<and> map uio_id (pg_data page) = [''a'']
          \<and> sorted (map uio_created_at (pg_data page)) \<and> pg_next_cursor page \<noteq> None"
    by (intro exI [of _ pa] conjI)
  from pn n have N: "\<exists>page. fst (getInterviews example_date_text example_JSON_valid ''c1''
        ''greenhouse'' ''lu1'' 1 None None interviews_db) = Inr page
          \<and> map uio_id (pg_data page) = [''e''] \<and> pg_next_cursor page \<noteq> None"
    by (intro exI [of _ pn] conjI)
  from pb b have B: "\<exists>page. fst (getInterviews example_date_text example_JSON_valid ''c1''
        ''greenhouse'' ''lu1'' 1 (Some True) (Some ''b'') interviews_db) = Inr page
          \<and> map uio_id (pg_data page) = [''b''] \<and> pg_next_cursor page = None"
    by (intro exI [of _ pb] conjI)
  from h A N B z show ?thesis by (intro conjI)
qed

text \<open>
  Claim C4 as stated, for every limit, fails below zero: with the limit \<open>-1\<close> and no
  cursor the query takes \<open>0\<close> rows, the length of the result equals \<open>limit + 1\<close>, and
  reading the id of the last of no rows throws a \<open>TypeError\<close>; no page is returned.
\<close>

theorem getInterviews_page_counterexample:
  "fst (getInterviews example_date_text example_JSON_valid ''c1'' ''greenhouse'' ''lu1'' (- 1) None
          None interviews_db) = Inl TypeError"
  by code_simp

lemma dropWhile_distinct_nth:
  "distinct (map k ys) \<Longrightarrow> i < length ys \<Longrightarrow> dropWhile (\<lambda>r. k r \<noteq> k (ys ! i)) ys = drop i ys"
proof (induction ys arbitrary: i)
  case Nil
  then show ?case by simp
next
  case (Cons y ys)
  show ?case
  proof (cases i)
    case 0
    then show ?thesis by simp
  next
    case (Suc j)
    with Cons.prems have "k y \<noteq> k (ys ! j)" by auto
    with Suc Cons show ?thesis by simp
  qed
qed

lemma distinct_map_sort_key: "distinct (map k xs) \<Longrightarrow> distinct (map k (sort_key f xs))"
  by (metis distinct_map distinct_sort set_sort)

lemma interviews_from_drop:
  "\<exists>p. interviews_from s c cur = drop p (ordered_interviews s c)"
proof (cases "truthy_str cur")
  case True
  then show ?thesis
    by (auto simp: interviews_from_def Let_def dropWhile_eq_drop)
next
  case False
  then show ?thesis
    by (auto simp: interviews_from_def Let_def intro: exI [of _ 0])
qed

lemma interviews_from_next:
  assumes d: "distinct (map id_ats_interview (ats_interviews s))"
    and ne: "\<forall>r\<in>set (ats_interviews s). id_ats_interview r \<noteq> []"
    and l: "limit < length (interviews_from s c cur)"
  shows "interviews_from s c (Some (id_ats_interview (interviews_from s c cur ! limit)))
         = drop limit (interviews_from s c cur)"
proof -
  let ?ord = "ordered_interviews s c"
  obtain p where p: "interviews_from s c cur = drop p ?ord" using interviews_from_drop by blast
  with l have pl: "p + limit < length ?ord" by simp
  have nth: "interviews_from s c cur ! limit = ?ord ! (p + limit)"
    using p pl by simp
  have "?ord ! (p + limit) \<in> set (ats_interviews s)"
    using pl nth_mem [OF pl] by (auto simp: ordered_interviews_def)
  with ne have t: "truthy_str (Some (id_ats_interview (?ord ! (p + limit))))"
    by (simp add: truthy_str_def)
  have dd: "distinct (map id_ats_interview ?ord)"
    unfolding ordered_interviews_def by (intro distinct_map_sort_key distinct_map_filter d)
  have "interviews_from s c (Some (id_ats_interview (?ord ! (p + limit))))
        = dropWhile (\<lambda>r. id_ats_interview r \<noteq> id_ats_interview (?ord ! (p + limit))) ?ord"
    using t by (simp add: interviews_from_def Let_def)
  also have "\<dots> = drop (p + limit) ?ord"
    by (rule dropWhile_distinct_nth [OF dd pl])
  also have "\<dots> = drop limit (interviews_from s c cur)"
    using p by (simp add: add.commute)
  finally show ?thesis using nth by simp
qed

lemma interviews_from_cong:
  "ats_interviews s' = ats_interviews s \<Longrightarrow> interviews_from s' c cur = interviews_from s c cur"
  by (simp add: interviews_from_def ordered_interviews_def)

text \<open>
  Claim C3, as amended.  With unique, non-empty interview ids: a \<open>next_cursor\<close> that is
  not null is the base64 text of the id of the interview right after the returned page.
  Passing that id (the decoded cursor) to a later call for the same connection passes
  the cursor check, and the page returned holds the interviews that follow the first
  page.  Passing \<open>next_cursor\<close> as it is gives a \<open>ReferenceError\<close> unless an
  interview of the connection has that very text as its id: \<open>getInterviews\<close> compares
  the cursor with the ids and never decodes it.
\<close>

theorem getInterviews_next_cursor:
  assumes d: "distinct (map id_ats_interview (ats_interviews s))"
    and ne: "\<forall>r\<in>set (ats_interviews s). id_ats_interview r \<noteq> []"
    and first: "getInterviews date_text JSON_valid connection_id integrationId linkedUserId limit
                  remote_data_flag cursor s = (Inr page, s')"
    and nc: "pg_next_cursor page = Some next_cursor"
  shows "\<exists>next_id.
           next_cursor = base64 next_id
         \<and> 0 \<le> limit
         \<and> nat limit < length (interviews_from s connection_id cursor)
         \<and> next_id = id_ats_interview (interviews_from s connection_id cursor ! nat limit)
         \<and> map uio_id (pg_data page)
             = map id_ats_interview (take (nat limit) (interviews_from s connection_id cursor))
         \<and> fst (getInterviews date_text JSON_valid connection_id integrationId' linkedUserId' limit'
                  remote_data_flag' (Some next_id) s') \<noteq> Inl ReferenceError
         \<and> (\<forall>page'. 0 \<le> limit'
                   \<and> fst (getInterviews date_text JSON_valid connection_id integrationId'
                           linkedUserId' limit' remote_data_flag' (Some next_id) s') = Inr page' \<longrightarrow>
               map uio_id (pg_data page')
               = map id_ats_interview
                   (take (nat limit') (drop (nat limit) (interviews_from s connection_id cursor))))
         \<and> (truthy_str (Some next_cursor)
             \<and> (\<forall>r\<in>set (ats_interviews s).
                  \<not> (i_id_connection r = connection_id \<and> id_ats_interview r = next_cursor)) \<longrightarrow>
             fst (getInterviews date_text JSON_valid connection_id integrationId' linkedUserId' limit'
                    remote_data_flag' (Some next_cursor) s') = Inl ReferenceError)"
proof -
  let ?xs = "interviews_from s connection_id cursor"
  let ?n = "id_ats_interview (?xs ! nat limit)"
  from first have f: "fst (getInterviews date_text JSON_valid connection_id integrationId
                  linkedUserId limit remote_data_flag cursor s) = Inr page" by simp
  from nc have "pg_next_cursor page \<noteq> None" by simp
  with f have nn: "0 \<le> limit" by (rule getInterviews_next_nonneg)
  note r = getInterviews_Inr [OF nn f]
  from r nc have l: "nat limit < length ?xs" and b: "next_cursor = base64 ?n"
    by (auto split: if_splits)
  from r have ids: "map uio_id (pg_data page) = map id_ats_interview (take (nat limit) ?xs)" by simp
  from first have s': "ats_interviews s' = ats_interviews s"
    using getInterviews_tables [of date_text JSON_valid connection_id integrationId linkedUserId
                  limit remote_data_flag cursor s] by simp
  have mem: "?xs ! nat limit \<in> set (ats_interviews s)
             \<and> i_id_connection (?xs ! nat limit) = connection_id"
    using interviews_from_set [OF nth_mem [OF l]] .
  with ne have n_ne: "?n \<noteq> []" by blast
  have found: "find (\<lambda>r. i_id_connection r = connection_id \<and> id_ats_interview r = ?n)
                 (ats_interviews s') \<noteq> None"
    using mem s' by (auto simp: find_None_iff)
  have no_ref: "fst (getInterviews date_text JSON_valid connection_id integrationId' linkedUserId'
                  limit' remote_data_flag' (Some ?n) s') \<noteq> Inl ReferenceError"
    using found by (simp add: getInterviews_ReferenceError)
  have nxt: "interviews_from s' connection_id (Some ?n) = drop (nat limit) ?xs"
    using interviews_from_next [OF d ne l] interviews_from_cong [OF s'] by simp
  have pg: "\<forall>page'. 0 \<le> limit'
                   \<and> fst (getInterviews date_text JSON_valid connection_id integrationId'
                           linkedUserId' limit' remote_data_flag' (Some ?n) s') = Inr page' \<longrightarrow>
               map uio_id (pg_data page')
               = map id_ats_interview (take (nat limit') (drop (nat limit) ?xs))"
    using getInterviews_Inr [of limit' date_text JSON_valid connection_id integrationId'
                           linkedUserId' remote_data_flag' "Some ?n" s'] nxt by simp
  have raw: "truthy_str (Some next_cursor)
             \<and> (\<forall>r\<in>set (ats_interviews s).
                  \<not> (i_id_connection r = connection_id \<and> id_ats_interview r = next_cursor)) \<longrightarrow>
             fst (getInterviews date_text JSON_valid connection_id integrationId' linkedUserId'
                    limit' remote_data_flag' (Some next_cursor) s') = Inl ReferenceError"
    using s' by (simp add: getInterviews_ReferenceError find_None_iff)
  from b nn l ids no_ref pg raw show ?thesis
    by (intro exI [of _ ?n] conjI) simp_all
qed

theorem getInterviews_next_cursor_witness:
  "distinct (map id_ats_interview (ats_interviews interviews_db))
   \<and> (\<exists>page s' next_id.
         getInterviews example_date_text example_JSON_valid ''c1'' ''greenhouse'' ''lu1'' 2 None None
           interviews_db = (Inr page, s')
       \<and> pg_next_cursor page = Some ''Yg==''
       \<and> ''Yg=='' = base64 next_id
       \<and> next_id = ''b''
       \<and> fst (getInterviews example_date_text example_JSON_valid ''c1'' ''greenhouse'' ''lu1'' 2 None
                (Some next_id) s')
           \<noteq> Inl ReferenceError
       \<and> fst (getInterviews example_date_text example_JSON_valid ''c1'' ''greenhouse'' ''lu1'' 2 None
                (Some ''Yg=='') s')
           = Inl ReferenceError)"
proof -
  let ?r = "getInterviews example_date_text example_JSON_valid ''c1'' ''greenhouse'' ''lu1'' 2 None
              None interviews_db"
  have d: "distinct (map id_ats_interview (ats_interviews interviews_db))"
    by (simp add: interviews_db_def empty_db_def example_interview_def)
  have ne: "\<forall>r\<in>set (ats_interviews interviews_db). id_ats_interview r \<noteq> []"
    by (simp add: interviews_db_def empty_db_def example_interview_def)
  have nc: "map_sum id pg_next_cursor (fst ?r) = Inr (Some ''Yg=='')"
    by code_simp
  then obtain page where fst: "fst ?r = Inr page" and nxt: "pg_next_cursor page = Some ''Yg==''"
    by (cases "fst ?r") auto
  from fst have first: "?r = (Inr page, snd ?r)"
    by (metis prod.collapse)
  have raw: "truthy_str (Some ''Yg=='')
       \<and> (\<forall>r\<in>set (ats_interviews interviews_db).
             \<not> (i_id_connection r = ''c1'' \<and> id_ats_interview r = ''Yg==''))"
    by (simp add: truthy_str_def interviews_db_def empty_db_def example_interview_def)
  from getInterviews_next_cursor [OF d ne first nxt, where integrationId' = "''greenhouse''"
      and linkedUserId' = "''lu1''" and limit' = 2 and remote_data_flag' = None]
  obtain next_id where n: "''Yg=='' = base64 next_id"
      "next_id = id_ats_interview (interviews_from interviews_db ''c1'' None ! nat 2)"
      "fst (getInterviews example_date_text example_JSON_valid ''c1'' ''greenhouse'' ''lu1'' 2 None
             (Some next_id) (snd ?r))
         \<noteq> Inl ReferenceError"
      "truthy_str (Some ''Yg=='')
       \<and> (\<forall>r\<in>set (ats_interviews interviews_db).
             \<not> (i_id_connection r = ''c1'' \<and> id_ats_interview r = ''Yg=='')) \<longrightarrow>
       fst (getInterviews example_date_text example_JSON_valid ''c1'' ''greenhouse'' ''lu1'' 2 None
              (Some ''Yg=='') (snd ?r))
         = Inl ReferenceError"
    by (elim exE conjE)
  have fr: "interviews_from interviews_db ''c1'' None = ordered_interviews interviews_db ''c1''"
    by (simp add: interviews_from_def truthy_str_def)
  from n(2) have b: "next_id = ''b''"
    by (simp add: fr interviews_db_ordered example_interview_def)
  from n(4) raw have e: "fst (getInterviews example_date_text example_JSON_valid ''c1''
      ''greenhouse'' ''lu1'' 2 None (Some ''Yg=='') (snd ?r)) = Inl ReferenceError"
    by (rule mp)
  have "\<exists>page s' next_id. ?r = (Inr page, s')
       \<and> pg_next_cursor page = Some ''Yg==''
       \<and> ''Yg=='' = base64 next_id
       \<and> next_id = ''b''
       \<and> fst (getInterviews example_date_text example_JSON_valid ''c1'' ''greenhouse'' ''lu1'' 2 None
                (Some next_id) s')
           \<noteq> Inl ReferenceError
       \<and> fst (getInterviews example_date_text example_JSON_valid ''c1'' ''greenhouse'' ''lu1'' 2 None
                (Some ''Yg=='') s')
           = Inl ReferenceError"
    using first nxt n(1) b n(3) e
    by (intro exI [of _ page] exI [of _ "snd ?r"] exI [of _ next_id] conjI)
  with d show ?thesis by (rule conjI)
qed

text \<open>
  Claim C3 as stated fails: with the interviews \<open>e\<close>, \<open>a\<close>, \<open>b\<close> of connection \<open>c1\<close> and
  limit 2 the first call returns the cursor \<open>Yg==\<close> (the base64 text of \<open>b\<close>), and the
  next call with that cursor and the same connection throws a \<open>ReferenceError\<close>.
\<close>

theorem getInterviews_next_cursor_counterexample:
  "map_sum id pg_next_cursor
     (fst (getInterviews example_date_text example_JSON_valid ''c1'' ''greenhouse'' ''lu1'' 2 None
             None interviews_db))
     = Inr (Some ''Yg=='')
   \<and> fst (getInterviews example_date_text example_JSON_valid ''c1'' ''greenhouse'' ''lu1'' 2 None
           (Some ''Yg=='')
           (snd (getInterviews example_date_text example_JSON_valid ''c1'' ''greenhouse'' ''lu1'' 2
                   None None interviews_db)))
     = Inl ReferenceError"
  by code_simp


section \<open>Properties of the sync fan-out\<close>

lemma distinct_concat_map:
  "distinct xs \<Longrightarrow> (\<And>x. x \<in> set xs \<Longrightarrow> distinct (f x)) \<Longrightarrow>
   (\<And>x y. x \<in> set xs \<Longrightarrow> y \<in> set xs \<Longrightarrow> x \<noteq> y \<Longrightarrow> set (f x) \<inter> set (f y) = {}) \<Longrightarrow>
   distinct (concat (map f xs))"
  by (induction xs) fastforce+

lemma concat_map_concat:
  "(\<And>x y. x \<in> set xs \<Longrightarrow> y \<in> set (F x) \<Longrightarrow> g x y = h y) \<Longrightarrow>
   concat (map (\<lambda>x. concat (map (g x) (F x))) xs) = concat (map h (concat (map F xs)))"
proof (induction xs)
  case Nil
  then show ?case by simp
next
  case (Cons x xs)
  have m: "map (g x) (F x) = map h (F x)"
    using Cons.prems by (intro map_cong) auto
  have "concat (map (g x) (F x)) = concat (map h (F x))"
    by (simp only: m)
  moreover have "concat (map (\<lambda>x. concat (map (g x) (F x))) xs) = concat (map h (concat (map F xs)))"
    using Cons.prems by (intro Cons.IH) auto
  ultimately show ?case by simp
qed

lemma concat_map_concat_same:
  "concat (map (\<lambda>x. concat (map h (F x))) xs) = concat (map h (concat (map F xs)))"
  by (induction xs) simp_all

lemma providers_loop_take:
  "\<exists>n. providers_loop rejects call ps = map call (take n ps)"
proof (induction ps)
  case Nil
  then show ?case by simp
next
  case (Cons p ps)
  then obtain n where n: "providers_loop rejects call ps = map call (take n ps)" ..
  show ?case
  proof (cases "rejects (call p)")
    case True
    then show ?thesis by (auto intro: exI [of _ "Suc 0"])
  next
    case False
    with n show ?thesis by (auto intro: exI [of _ "Suc n"])
  qed
qed

lemma providers_loop_all:
  "(\<And>c. \<not> rejects c) \<Longrightarrow> providers_loop rejects call ps = map call ps"
  by (induction ps) auto

lemma providers_loop_set: "c \<in> set (providers_loop rejects call ps) \<Longrightarrow> c \<in> call ` set ps"
proof -
  assume c: "c \<in> set (providers_loop rejects call ps)"
  obtain n where "providers_loop rejects call ps = map call (take n ps)"
    using providers_loop_take by blast
  with c have "c \<in> call ` set (take n ps)" by simp
  then show ?thesis using set_take_subset [of n ps] by blast
qed

lemma providers_loop_distinct:
  "distinct ps \<Longrightarrow> inj_on call (set ps) \<Longrightarrow> distinct (providers_loop rejects call ps)"
proof -
  assume d: "distinct ps" and i: "inj_on call (set ps)"
  obtain n where n: "providers_loop rejects call ps = map call (take n ps)"
    using providers_loop_take by blast
  have "inj_on call (set (take n ps))"
    using i by (rule inj_on_subset) (auto dest: in_set_takeD)
  with d show ?thesis unfolding n by (simp add: distinct_map)
qed

lemma projects_loop_visited:
  "projects_loop rejects call ps s u =
     concat (map (\<lambda>l. providers_loop rejects (\<lambda>p. call p (lu_id_linked_user l) (lu_id_project l)) ps)
       (visited s u))"
  unfolding projects_loop_def visited_def
  by (rule concat_map_concat) simp

lemma users_loop_Some:
  "users_loop rejects call ps s (map Some us) = (concat (map (projects_loop rejects call ps s) us), None)"
  by (induction us) auto

lemma distinct_rows: "distinct (map k xs) \<Longrightarrow> distinct xs"
  by (simp add: distinct_map)

lemma same_row: "distinct (map k xs) \<Longrightarrow> x \<in> set xs \<Longrightarrow> y \<in> set xs \<Longrightarrow> k x = k y \<Longrightarrow> x = y"
  by (meson distinct_map inj_onD)

lemma visited_set:
  "l \<in> set (visited s u) \<longleftrightarrow>
     l \<in> set (linked_users s)
     \<and> (\<exists>pr\<in>set (projects s). p_id_project pr = lu_id_project l \<and> p_id_user pr = u_id_user u)"
  by (auto simp: visited_def)

lemma visited_distinct:
  assumes "distinct (map p_id_project (projects s))" "distinct (map lu_id_linked_user (linked_users s))"
  shows "distinct (visited s u)"
  unfolding visited_def
proof (rule distinct_concat_map)
  show "distinct (filter (\<lambda>p. p_id_user p = u_id_user u) (projects s))"
    using assms(1) by (simp add: distinct_rows)
  show "distinct (filter (\<lambda>l. lu_id_project l = p_id_project pr) (linked_users s))" for pr
    using assms(2) by (simp add: distinct_rows)
  fix x y
  assume "x \<in> set (filter (\<lambda>p. p_id_user p = u_id_user u) (projects s))"
    "y \<in> set (filter (\<lambda>p. p_id_user p = u_id_user u) (projects s))" "x \<noteq> y"
  then have "p_id_project x \<noteq> p_id_project y"
    using same_row [OF assms(1), of x y] by auto
  then show "set (filter (\<lambda>l. lu_id_project l = p_id_project x) (linked_users s))
      \<inter> set (filter (\<lambda>l. lu_id_project l = p_id_project y) (linked_users s)) = {}"
    by auto
qed

lemma visited_all_distinct:
  assumes u: "distinct (map u_id_user us)" and sub: "set us \<subseteq> set (users s)"
    and p: "distinct (map p_id_project (projects s))"
    and l: "distinct (map lu_id_linked_user (linked_users s))"
  shows "distinct (concat (map (visited s) us))"
proof (rule distinct_concat_map)
  show "distinct us" using u by (rule distinct_rows)
  show "distinct (visited s x)" for x by (rule visited_distinct [OF p l])
  fix x y assume xy: "x \<in> set us" "y \<in> set us" "x \<noteq> y"
  then have ne: "u_id_user x \<noteq> u_id_user y" using same_row [OF u, of x y] by auto
  show "set (visited s x) \<inter> set (visited s y) = {}"
  proof (rule ccontr)
    assume "set (visited s x) \<inter> set (visited s y) \<noteq> {}"
    then obtain r where r: "r \<in> set (visited s x)" "r \<in> set (visited s y)" by auto
    then obtain pr pr' where "pr \<in> set (projects s)" "p_id_project pr = lu_id_project r"
        "p_id_user pr = u_id_user x" "pr' \<in> set (projects s)" "p_id_project pr' = lu_id_project r"
        "p_id_user pr' = u_id_user y"
      by (auto simp: visited_set)
    with same_row [OF p, of pr pr'] ne show False by auto
  qed
qed

lemma find_filter_single:
  "distinct (map k xs) \<Longrightarrow> find (\<lambda>x. k x = v) xs = Some y \<Longrightarrow> filter (\<lambda>x. k x = v) xs = [y]"
proof (induction xs)
  case Nil
  then show ?case by simp
next
  case (Cons x xs)
  show ?case
  proof (cases "k x = v")
    case True
    with Cons.prems have "y = x" by simp
    moreover from True Cons.prems have "\<forall>z\<in>set xs. k z \<noteq> v" by (auto simp: image_iff)
    ultimately show ?thesis using True by (simp add: filter_empty_conv)
  next
    case False
    with Cons show ?thesis by simp
  qed
qed

lemma sync_fan_out_eq:
  assumes u: "distinct (map u_id_user (users s))"
    and ok: "truthy_str user_id \<longrightarrow> (\<exists>u\<in>set (users s). u_id_user u = the user_id)"
  shows "sync_fan_out rejects call ps user_id s =
     (concat (map (\<lambda>l. providers_loop rejects (\<lambda>p. call p (lu_id_linked_user l) (lu_id_project l)) ps)
        (concat (map (visited s) (selected_users user_id s)))), None)"
proof (cases "truthy_str user_id")
  case True
  with ok obtain x where "find (\<lambda>u. u_id_user u = the user_id) (users s) = Some x"
    by (cases "find (\<lambda>u. u_id_user u = the user_id) (users s)") (auto simp: find_None_iff)
  moreover from this have "filter (\<lambda>u. u_id_user u = the user_id) (users s) = [x]"
    by (rule find_filter_single [OF u])
  ultimately show ?thesis
    using True by (simp add: sync_fan_out_def selected_users_def projects_loop_visited)
next
  case False
  show ?thesis
  proof -
    have "projects_loop rejects call ps s =
        (\<lambda>u. concat (map (\<lambda>l. providers_loop rejects
            (\<lambda>p. call p (lu_id_linked_user l) (lu_id_project l)) ps) (visited s u)))"
      by (rule ext) (rule projects_loop_visited)
    then show ?thesis
      using False
      by (simp add: sync_fan_out_def selected_users_def users_loop_Some concat_map_concat_same)
  qed
qed

lemma selected_users_set:
  "u \<in> set (selected_users user_id s) \<longleftrightarrow>
     u \<in> set (users s) \<and> (truthy_str user_id \<longrightarrow> u_id_user u = the user_id)"
  by (auto simp: selected_users_def)

lemma selected_users_distinct:
  "distinct (map u_id_user (users s)) \<Longrightarrow> distinct (map u_id_user (selected_users user_id s))"
  by (simp add: selected_users_def distinct_map_filter)

lemma reached_set:
  "l \<in> set (concat (map (visited s) (selected_users user_id s))) \<longleftrightarrow>
     l \<in> set (linked_users s)
     \<and> (\<exists>pr\<in>set (projects s). \<exists>u\<in>set (users s).
           p_id_project pr = lu_id_project l \<and> p_id_user pr = u_id_user u
           \<and> (truthy_str user_id \<longrightarrow> u_id_user u = the user_id))"
proof -
  have "l \<in> set (concat (map (visited s) (selected_users user_id s))) \<longleftrightarrow>
      (\<exists>u\<in>set (selected_users user_id s). l \<in> set (visited s u))"
    by simp
  also have "\<dots> \<longleftrightarrow> l \<in> set (linked_users s)
     \<and> (\<exists>pr\<in>set (projects s). \<exists>u\<in>set (users s).
           p_id_project pr = lu_id_project l \<and> p_id_user pr = u_id_user u
           \<and> (truthy_str user_id \<longrightarrow> u_id_user u = the user_id))"
    unfolding Bex_def visited_set selected_users_set by blast
  finally show ?thesis .
qed

lemma fan_out_target_reached:
  "fan_out_target s ps user_id p lid pid \<longleftrightarrow>
     p \<in> set ps
     \<and> (\<exists>l\<in>set (concat (map (visited s) (selected_users user_id s))).
           lu_id_linked_user l = lid \<and> lu_id_project l = pid)"
  unfolding fan_out_target_def Bex_def reached_set by blast

lemma sync_fan_out_calls:
  assumes inj: "\<And>p l pr p' l' pr'. call p l pr = call p' l' pr' \<Longrightarrow> p = p' \<and> l = l'"
    and u: "distinct (map u_id_user (users s))"
    and pd: "distinct (map p_id_project (projects s))"
    and ld: "distinct (map lu_id_linked_user (linked_users s))"
    and ps: "distinct ps"
    and ok: "truthy_str user_id \<longrightarrow> (\<exists>u\<in>set (users s). u_id_user u = the user_id)"
  shows "snd (sync_fan_out rejects call ps user_id s) = None"
    and "distinct (fst (sync_fan_out rejects call ps user_id s))"
    and "\<forall>c\<in>set (fst (sync_fan_out rejects call ps user_id s)).
           \<exists>p l pr. c = call p l pr \<and> fan_out_target s ps user_id p l pr"
    and "(\<forall>c. \<not> rejects c) \<longrightarrow>
           (\<forall>p l pr. fan_out_target s ps user_id p l pr \<longrightarrow>
              call p l pr \<in> set (fst (sync_fan_out rejects call ps user_id s)))"
proof -
  let ?V = "concat (map (visited s) (selected_users user_id s))"
  let ?H = "\<lambda>l. providers_loop rejects (\<lambda>p. call p (lu_id_linked_user l) (lu_id_project l)) ps"
  note eq = sync_fan_out_eq [OF u ok, of rejects call ps]
  show "snd (sync_fan_out rejects call ps user_id s) = None" by (simp add: eq)
  have V: "distinct ?V"
    by (rule visited_all_distinct [OF selected_users_distinct [OF u] _ pd ld])
       (auto simp: selected_users_set)
  have Vsub: "l \<in> set ?V \<Longrightarrow> l \<in> set (linked_users s)" for l
    unfolding reached_set by (rule conjunct1)
  have Hset: "c \<in> set (?H l) \<Longrightarrow> \<exists>p\<in>set ps. c = call p (lu_id_linked_user l) (lu_id_project l)" for c l
    using providers_loop_set [of c rejects "\<lambda>p. call p (lu_id_linked_user l) (lu_id_project l)" ps]
    by auto
  have "distinct (concat (map ?H ?V))"
  proof (rule distinct_concat_map [OF V])
    fix l
    have "inj_on (\<lambda>p. call p (lu_id_linked_user l) (lu_id_project l)) (set ps)"
      by (rule inj_onI) (use inj in blast)
    then show "distinct (?H l)" by (rule providers_loop_distinct [OF ps])
  next
    fix l l' assume l: "l \<in> set ?V" "l' \<in> set ?V" "l \<noteq> l'"
    then have ne: "lu_id_linked_user l \<noteq> lu_id_linked_user l'"
      using same_row [OF ld, of l l'] Vsub by blast
    show "set (?H l) \<inter> set (?H l') = {}"
    proof (rule ccontr)
      assume "set (?H l) \<inter> set (?H l') \<noteq> {}"
      then obtain c where "c \<in> set (?H l)" "c \<in> set (?H l')" by blast
      then obtain p p' where "c = call p (lu_id_linked_user l) (lu_id_project l)"
          "c = call p' (lu_id_linked_user l') (lu_id_project l')"
        using Hset by blast
      with inj ne show False by metis
    qed
  qed
  then show "distinct (fst (sync_fan_out rejects call ps user_id s))" by (simp add: eq)
  show "\<forall>c\<in>set (fst (sync_fan_out rejects call ps user_id s)).
           \<exists>p l pr. c = call p l pr \<and> fan_out_target s ps user_id p l pr"
  proof
    fix c assume "c \<in> set (fst (sync_fan_out rejects call ps user_id s))"
    then obtain l where l: "l \<in> set ?V" "c \<in> set (?H l)" by (auto simp: eq)
    then obtain p where p: "p \<in> set ps" "c = call p (lu_id_linked_user l) (lu_id_project l)"
      using Hset by blast
    have "fan_out_target s ps user_id p (lu_id_linked_user l) (lu_id_project l)"
      unfolding fan_out_target_reached using l(1) p(1) by blast
    with p(2) show "\<exists>p l pr. c = call p l pr \<and> fan_out_target s ps user_id p l pr" by blast
  qed
  show "(\<forall>c. \<not> rejects c) \<longrightarrow>
           (\<forall>p l pr. fan_out_target s ps user_id p l pr \<longrightarrow>
              call p l pr \<in> set (fst (sync_fan_out rejects call ps user_id s)))"
  proof (intro impI allI)
    fix p lid pid
    assume nr: "\<forall>c. \<not> rejects c" and t: "fan_out_target s ps user_id p lid pid"
    from t obtain l where l: "p \<in> set ps" "l \<in> set ?V" "lu_id_linked_user l = lid"
        "lu_id_project l = pid"
      unfolding fan_out_target_reached by blast
    have "?H l = map (\<lambda>p. call p (lu_id_linked_user l) (lu_id_project l)) ps"
      using nr by (intro providers_loop_all) simp
    with l have "call p lid pid \<in> set (?H l)" by auto
    with l(2) show "call p lid pid \<in> set (fst (sync_fan_out rejects call ps user_id s))"
      unfolding eq by (simp only: fst_conv set_concat set_map) blast
  qed
qed

text \<open>
  Claim C7, as amended.  With unique ids of users, projects and linked users, providers
  listed once, and, when a \<open>user_id\<close> is given, a user of that id: \<open>syncGroups\<close> throws
  nothing and calls \<open>syncGroupsForLinkedUser\<close> at most once per (provider, linked user,
  project) triple and only for triples of the fan-out (all users without \<open>user_id\<close>,
  that user alone with it); when no call rejects, every such triple is called, hence
  exactly once.  \<open>syncAttachments\<close> does the same with the pairs (provider, linked
  user) over \<open>ATS_PROVIDERS\<close>.
\<close>

theorem sync_fan_out_once:
  assumes "distinct (map u_id_user (users s))"
    and "distinct (map p_id_project (projects s))"
    and "distinct (map lu_id_linked_user (linked_users s))"
    and "distinct FILESTORAGE_PROVIDERS" and "distinct ATS_PROVIDERS"
    and "truthy_str user_id \<longrightarrow> (\<exists>u\<in>set (users s). u_id_user u = the user_id)"
  shows "snd (syncGroups FILESTORAGE_PROVIDERS rejects user_id s) = None
       \<and> distinct (fst (syncGroups FILESTORAGE_PROVIDERS rejects user_id s))
       \<and> (\<forall>c\<in>set (fst (syncGroups FILESTORAGE_PROVIDERS rejects user_id s)).
             fan_out_target s FILESTORAGE_PROVIDERS user_id (fst c) (fst (snd c)) (snd (snd c)))
       \<and> ((\<forall>c. \<not> rejects c) \<longrightarrow>
            (\<forall>p l pr. fan_out_target s FILESTORAGE_PROVIDERS user_id p l pr \<longrightarrow>
               (p, l, pr) \<in> set (fst (syncGroups FILESTORAGE_PROVIDERS rejects user_id s))))
       \<and> snd (syncAttachments ATS_PROVIDERS rejects' user_id s) = None
       \<and> distinct (fst (syncAttachments ATS_PROVIDERS rejects' user_id s))
       \<and> (\<forall>c\<in>set (fst (syncAttachments ATS_PROVIDERS rejects' user_id s)).
             \<exists>pr. fan_out_target s ATS_PROVIDERS user_id (fst c) (snd c) pr)
       \<and> ((\<forall>c. \<not> rejects' c) \<longrightarrow>
            (\<forall>p l pr. fan_out_target s ATS_PROVIDERS user_id p l pr \<longrightarrow>
               (p, l) \<in> set (fst (syncAttachments ATS_PROVIDERS rejects' user_id s))))"
proof -
  note g = sync_fan_out_calls [where call = "\<lambda>p l pr. (p, l, pr)" and rejects = rejects,
      OF _ assms(1,2,3,4,6), folded syncGroups_def]
  note a = sync_fan_out_calls [where call = "\<lambda>p l pr. (p, l)" and rejects = rejects',
      OF _ assms(1,2,3,5,6), folded syncAttachments_def]
  have g3: "\<forall>c\<in>set (fst (syncGroups FILESTORAGE_PROVIDERS rejects user_id s)).
             fan_out_target s FILESTORAGE_PROVIDERS user_id (fst c) (fst (snd c)) (snd (snd c))"
    using g(3) by fastforce
  have a3: "\<forall>c\<in>set (fst (syncAttachments ATS_PROVIDERS rejects' user_id s)).
             \<exists>pr. fan_out_target s ATS_PROVIDERS user_id (fst c) (snd c) pr"
    using a(3) by fastforce
  show ?thesis
    using g(1,2,4) g3 a(1,2,4) a3 by (intro conjI) simp_all
qed

theorem sync_fan_out_once_witness:
  "distinct (map u_id_user (users fan_out_db))
   \<and> distinct (map p_id_project (projects fan_out_db))
   \<and> distinct (map lu_id_linked_user (linked_users fan_out_db))
   \<and> truthy_str (Some ''u2'')
   \<and> distinct (fst (syncGroups [''box'', ''dropbox''] rejects_none (Some ''u2'') fan_out_db))
   \<and> (''dropbox'', ''l2'', ''p2'')
        \<in> set (fst (syncGroups [''box'', ''dropbox''] rejects_none (Some ''u2'') fan_out_db))
   \<and> (''greenhouse'', ''l2'')
        \<in> set (fst (syncAttachments [''greenhouse''] rejects_none (Some ''u2'') fan_out_db))"
proof -
  have h: "distinct (map u_id_user (users fan_out_db))"
      "distinct (map p_id_project (projects fan_out_db))"
      "distinct (map lu_id_linked_user (linked_users fan_out_db))"
      "distinct [''box'', ''dropbox'']" "distinct [''greenhouse'']"
    by (simp_all add: fan_out_db_def empty_db_def example_user_def)
  have t: "truthy_str (Some ''u2'')" by (simp add: truthy_str_def)
  have ok: "truthy_str (Some ''u2'') \<longrightarrow>
      (\<exists>u\<in>set (users fan_out_db). u_id_user u = the (Some ''u2''))"
    by (simp add: fan_out_db_def empty_db_def example_user_def)
  note th = sync_fan_out_once [OF h ok, of rejects_none rejects_none]
  have nr: "\<forall>c. \<not> rejects_none c" by (simp add: rejects_none_def)
  have tg: "fan_out_target fan_out_db [''box'', ''dropbox''] (Some ''u2'') ''dropbox'' ''l2'' ''p2''"
    by code_simp
  have ta: "fan_out_target fan_out_db [''greenhouse''] (Some ''u2'') ''greenhouse'' ''l2'' ''p2''"
    by code_simp
  from th have d: "distinct (fst (syncGroups [''box'', ''dropbox''] rejects_none (Some ''u2'') fan_out_db))"
    by (elim conjE)
  from th have "(\<forall>c :: string \<times> string \<times> string. \<not> rejects_none c) \<longrightarrow>
            (\<forall>p l pr. fan_out_target fan_out_db [''box'', ''dropbox''] (Some ''u2'') p l pr \<longrightarrow>
               (p, l, pr) \<in> set (fst (syncGroups [''box'', ''dropbox''] rejects_none (Some ''u2'') fan_out_db)))"
    by (elim conjE)
  from mp [OF this nr] tg have g: "(''dropbox'', ''l2'', ''p2'')
        \<in> set (fst (syncGroups [''box'', ''dropbox''] rejects_none (Some ''u2'') fan_out_db))"
    by (elim allE impE)
  from th have "(\<forall>c :: string \<times> string. \<not> rejects_none c) \<longrightarrow>
            (\<forall>p l pr. fan_out_target fan_out_db [''greenhouse''] (Some ''u2'') p l pr \<longrightarrow>
               (p, l) \<in> set (fst (syncAttachments [''greenhouse''] rejects_none (Some ''u2'') fan_out_db)))"
    by (elim conjE)
  from mp [OF this nr] ta have a: "(''greenhouse'', ''l2'')
        \<in> set (fst (syncAttachments [''greenhouse''] rejects_none (Some ''u2'') fan_out_db))"
    by (elim allE impE)
  from h(1,2,3) t d g a show ?thesis by (intro conjI)
qed

text \<open>
  Claim C7 as stated fails: when the call for the first provider rejects, the callback
  rethrows and the second provider is never called for that linked user, although the
  triple belongs to the fan-out.
\<close>

theorem sync_fan_out_once_counterexample:
  "syncGroups [''box'', ''dropbox''] rejects_box None fan_out_db
     = ([(''box'', ''l1'', ''p1''), (''box'', ''l2'', ''p2'')], None)
   \<and> fan_out_target fan_out_db [''box'', ''dropbox''] None ''dropbox'' ''l1'' ''p1''"
  by code_simp


section \<open>Properties of upserts on a table\<close>

lemma update_first_map:
  "(\<And>r. h (f r) = h r) \<Longrightarrow> map h (update_first P f xs) = map h xs"
  by (induction xs) auto

lemma update_first_length [simp]: "length (update_first P f xs) = length xs"
  by (induction xs) auto

lemma update_first_append:
  "\<exists>x\<in>set xs. P x \<Longrightarrow> update_first P f (xs @ ys) = update_first P f xs @ ys"
  by (induction xs) auto

lemma update_first_append_absent:
  "\<forall>x\<in>set xs. \<not> P x \<Longrightarrow> update_first P f (xs @ ys) = xs @ update_first P f ys"
  by (induction xs) auto

lemma update_first_absent: "\<forall>x\<in>set xs. \<not> P x \<Longrightarrow> update_first P f xs = xs"
  by (induction xs) auto

lemma firsts_map_seen_absent:
  assumes "\<And>r. key r \<noteq> k \<Longrightarrow> f r = r"
  shows "k \<in> seen \<Longrightarrow> firsts_map key f seen xs = xs"
proof (induction xs arbitrary: seen)
  case Nil
  then show ?case by simp
next
  case (Cons x xs)
  have "key x \<notin> seen \<Longrightarrow> f x = x"
    using Cons.prems by (intro assms) auto
  with Cons show ?case by simp
qed

lemma update_first_firsts:
  assumes "\<And>r. key r \<noteq> k \<Longrightarrow> f r = r" "k \<notin> seen"
  shows "update_first (\<lambda>r. key r = k) f xs = firsts_map key f seen xs"
  using assms(2)
proof (induction xs arbitrary: seen)
  case Nil
  then show ?case by simp
next
  case (Cons x xs)
  show ?case
  proof (cases "key x = k")
    case True
    then show ?thesis
      using Cons.prems firsts_map_seen_absent [of key k f "insert (key x) seen" xs] assms(1)
      by auto
  next
    case False
    with Cons.prems have "k \<notin> insert (key x) seen" by simp
    from Cons.IH [OF this] Cons.IH [OF Cons.prems] False assms(1) [of x]
    show ?thesis by simp
  qed
qed

lemma firsts_map_comp:
  "(\<And>r. key (g r) = key r) \<Longrightarrow>
   firsts_map key f seen (firsts_map key g seen xs) = firsts_map key (f \<circ> g) seen xs"
  by (induction xs arbitrary: seen) auto

lemma row_fold_key:
  "(\<And>g r. key (patch g r) = key r) \<Longrightarrow> key (row_fold key kg patch gs r) = key r"
  unfolding row_fold_def by (induction gs arbitrary: r) auto

lemma upsert_fold_firsts:
  assumes kp: "\<And>g r. key (patch g r) = key r"
  shows "upsert_fold key kg patch gs X = firsts_map key (row_fold key kg patch gs) {} X"
proof (induction gs arbitrary: X)
  case Nil
  have "firsts_map key (\<lambda>r. r) seen X = X" for seen
    by (induction X arbitrary: seen) auto
  then show ?case by (simp add: upsert_fold_def row_fold_def)
next
  case (Cons g gs)
  let ?s = "\<lambda>r. if key r = kg g then patch g r else r"
  have s: "update_first (\<lambda>r. key r = kg g) (patch g) X = firsts_map key ?s {} X"
  proof -
    have "update_first (\<lambda>r. key r = kg g) (patch g) X = update_first (\<lambda>r. key r = kg g) ?s X"
      by (induction X) auto
    also have "\<dots> = firsts_map key ?s {} X"
      by (rule update_first_firsts) auto
    finally show ?thesis .
  qed
  have "upsert_fold key kg patch (g # gs) X
        = upsert_fold key kg patch gs (update_first (\<lambda>r. key r = kg g) (patch g) X)"
    by (simp add: upsert_fold_def)
  also have "\<dots> = firsts_map key (row_fold key kg patch gs) {} (firsts_map key ?s {} X)"
    by (simp only: Cons.IH s)
  also have "\<dots> = firsts_map key (row_fold key kg patch gs \<circ> ?s) {} X"
    by (rule firsts_map_comp) (simp add: kp)
  also have "row_fold key kg patch gs \<circ> ?s = row_fold key kg patch (g # gs)"
    by (rule ext) (simp add: row_fold_def)
  finally show ?case .
qed

lemma row_fold_class:
  assumes c1: "\<And>g. C (patch g)" and cid: "C (\<lambda>r. r)"
    and cc: "\<And>f h. C f \<Longrightarrow> C h \<Longrightarrow> C (\<lambda>r. f (h r))"
    and kp: "\<And>g r. key (patch g r) = key r"
  shows "\<exists>f. C f \<and> (\<forall>r. key r = k \<longrightarrow> row_fold key kg patch gs r = f r)"
proof (induction gs rule: rev_induct)
  case Nil
  show ?case using cid by (auto simp: row_fold_def)
next
  case (snoc g gs)
  then obtain f where f: "C f" "\<forall>r. key r = k \<longrightarrow> row_fold key kg patch gs r = f r" by blast
  have kf: "key (row_fold key kg patch gs r) = key r" for r
    by (rule row_fold_key) (rule kp)
  have rf: "row_fold key kg patch (gs @ [g]) r
        = (let r' = row_fold key kg patch gs r in if key r' = kg g then patch g r' else r')" for r
    by (simp add: row_fold_def)
  show ?case
  proof (cases "kg g = k")
    case True
    have "C (\<lambda>r. patch g (f r))" using c1 f(1) by (rule cc)
    moreover have "row_fold key kg patch (gs @ [g]) r = patch g (f r)" if "key r = k" for r
    proof -
      from that f(2) have e: "row_fold key kg patch gs r = f r" by simp
      with kf [of r] that True have "key (f r) = kg g" by simp
      with e show ?thesis by (simp add: rf Let_def)
    qed
    ultimately show ?thesis by blast
  next
    case False
    have "row_fold key kg patch (gs @ [g]) r = f r" if "key r = k" for r
    proof -
      from that f(2) have e: "row_fold key kg patch gs r = f r" by simp
      with kf [of r] that False have "key (f r) \<noteq> kg g" by simp
      with e show ?thesis by (simp add: rf Let_def)
    qed
    with f(1) show ?thesis by blast
  qed
qed

lemma firsts_map_idem:
  assumes "\<And>r. f (f r) = f r" "\<And>r. key (f r) = key r"
  shows "firsts_map key f seen (firsts_map key f seen xs) = firsts_map key f seen xs"
  using assms by (induction xs arbitrary: seen) auto

lemma upsert_fold_idem:
  assumes c1: "\<And>g. C (patch g)" and cid: "C (\<lambda>r. r)"
    and cc: "\<And>f h. C f \<Longrightarrow> C h \<Longrightarrow> C (\<lambda>r. f (h r))"
    and ci: "\<And>f r. C f \<Longrightarrow> f (f r) = f r"
    and kp: "\<And>g r. key (patch g r) = key r"
  shows "upsert_fold key kg patch gs (upsert_fold key kg patch gs X) = upsert_fold key kg patch gs X"
proof -
  let ?R = "row_fold key kg patch gs"
  have idem: "?R (?R r) = ?R r" for r
  proof -
    have "\<exists>f. C f \<and> (\<forall>r'. key r' = key r \<longrightarrow> ?R r' = f r')"
    proof (rule row_fold_class [where C = C and patch = patch and key = key])
      show "C (patch g)" for g by (rule c1)
      show "C (\<lambda>r. r)" by (rule cid)
      show "C (\<lambda>r. f (h r))" if "C f" "C h" for f h using that by (rule cc)
      show "key (patch g r) = key r" for g r by (rule kp)
    qed
    then obtain f where f: "C f" "\<forall>r'. key r' = key r \<longrightarrow> ?R r' = f r'" by blast
    have "key (?R r) = key r" by (rule row_fold_key) (rule kp)
    with f have "?R (?R r) = f (f r)" by simp
    with f ci show ?thesis by simp
  qed
  have "key (?R r) = key r" for r by (rule row_fold_key) (rule kp)
  with idem show ?thesis
    unfolding upsert_fold_firsts [of key patch, OF kp]
    by (intro firsts_map_idem)
qed

lemma prisma_update_found:
  assumes "distinct (map k xs)" "find P xs = Some e"
  shows "prisma_update (\<lambda>y. k y = k e) f xs = Inr (f e, update_first P f xs)"
proof -
  from find_Some_nth [OF assms(2)] obtain i where i: "i < length xs" "xs ! i = e" "P e"
      "\<forall>j<i. \<not> P (xs ! j)" by blast
  have "update_first P f xs = xs[i := f (xs ! i)]"
    using i by (intro update_first_nth) auto
  with prisma_update_distinct [OF assms(1) i(1), of f] i(2) show ?thesis by simp
qed

lemma prisma_update_member:
  assumes "e \<in> set xs"
  shows "\<exists>res. prisma_update (\<lambda>y. k y = k e) f xs = Inr (res, update_first (\<lambda>y. k y = k e) f xs)"
proof -
  from assms have "find (\<lambda>y. k y = k e) xs \<noteq> None" by (auto simp: find_None_iff)
  then show ?thesis by (auto simp: prisma_update_def)
qed

lemma find_member: "find P xs = Some e \<Longrightarrow> e \<in> set xs \<and> P e"
  by (auto simp: find_Some_iff)

lemma group_data_write:
  "group_data g = group_write (if truthy_str (ug_name g) then Some (ug_name g) else None)
      (if truthy_arr (ug_users g) then Some (ug_users g) else None)
      (if truthy_bool (ug_remote_was_deleted g) then Some (ug_remote_was_deleted g) else None)"
  by (rule ext) (simp add: group_data_def group_write_def Let_def)

lemma group_write_comp:
  "group_write a b c (group_write a' b' c' r)
   = group_write (case a of None \<Rightarrow> a' | Some v \<Rightarrow> Some v) (case b of None \<Rightarrow> b' | Some v \<Rightarrow> Some v)
       (case c of None \<Rightarrow> c' | Some v \<Rightarrow> Some v) r"
  by (simp add: group_write_def split: option.splits)

lemma group_write_idem: "group_write a b c (group_write a b c r) = group_write a b c r"
  by (simp add: group_write_def split: option.splits)

lemma group_write_id: "group_write None None None = (\<lambda>r. r)"
  by (rule ext) (simp add: group_write_def)

lemma group_write_fields [simp]:
  "id_fs_group (group_write a b c r) = id_fs_group r"
  "g_remote_id (group_write a b c r) = g_remote_id r"
  "g_id_connection (group_write a b c r) = g_id_connection r"
  "g_created_at (group_write a b c r) = g_created_at r"
  "g_modified_at (group_write a b c r) = g_modified_at r"
  by (simp_all add: group_write_def)

lemma group_data_fields [simp]:
  "id_fs_group (group_data g r) = id_fs_group r"
  "g_remote_id (group_data g r) = g_remote_id r"
  "g_id_connection (group_data g r) = g_id_connection r"
  "g_created_at (group_data g r) = g_created_at r"
  "g_modified_at (group_data g r) = g_modified_at r"
  by (simp_all add: group_data_write)

lemma group_key_data [simp]: "group_key (group_data g r) = group_key r"
  by (simp add: group_key_def)

lemma group_key_unstamped [simp]: "group_key (group_unstamped r) = group_key r"
  by (simp add: group_key_def group_unstamped_def)

lemma group_unstamped_data:
  "group_unstamped (group_data g (r\<lparr>g_modified_at := t\<rparr>)) = group_data g (group_unstamped r)"
  by (simp add: group_data_write group_write_def group_unstamped_def)

lemma group_upsert_fold_idem:
  "upsert_fold group_key kg group_data gs (upsert_fold group_key kg group_data gs X)
   = upsert_fold group_key kg group_data gs X"
proof (rule upsert_fold_idem [where C = is_group_write])
  show "is_group_write (group_data g)" for g
    unfolding is_group_write_def group_data_write by blast
  show "is_group_write (\<lambda>r. r)"
    unfolding is_group_write_def using group_write_id [symmetric] by blast
  show "is_group_write (\<lambda>r. f (h r))" if "is_group_write f" "is_group_write h" for f h
  proof -
    from that obtain a b c a' b' c' where "f = group_write a b c" "h = group_write a' b' c'"
      unfolding is_group_write_def by blast
    then have "(\<lambda>r. f (h r)) = group_write (case a of None \<Rightarrow> a' | Some v \<Rightarrow> Some v)
        (case b of None \<Rightarrow> b' | Some v \<Rightarrow> Some v) (case c of None \<Rightarrow> c' | Some v \<Rightarrow> Some v)"
      by (simp add: group_write_comp)
    then show ?thesis unfolding is_group_write_def by blast
  qed
  show "f (f r) = f r" if "is_group_write f" for f r
    using that unfolding is_group_write_def by (auto simp: group_write_idem)
  show "group_key (group_data g r) = group_key r" for g r by simp
qed


section \<open>Properties of the group save\<close>

lemma save_values_frame:
  "fs_groups (save_values l src e es s) = fs_groups s
   \<and> uuid_stream (save_values l src e es s) = uuid_stream s
   \<and> uuid_next s \<le> uuid_next (save_values l src e es s)
   \<and> events (save_values l src e es s) = events s
   \<and> webhooks (save_values l src e es s) = webhooks s
   \<and> connections (save_values l src e es s) = connections s"
proof (induction es arbitrary: s)
  case Nil
  then show ?case by simp
next
  case (Cons kv es)
  obtain k v where kv: "kv = (k, v)" by (cases kv)
  show ?case
  proof (cases "find (\<lambda>a. a_slug a = k \<and> a_source a = src \<and> a_id_consumer a = l) (attribute s)")
    case None
    with Cons [of s] kv show ?thesis by simp
  next
    case (Some attr)
    let ?s2 = "s\<lparr>uuid_next := Suc (uuid_next s), value_rows := value_rows s @
                     [\<lparr>id_value = uuid_stream s (uuid_next s), v_data = (if v = [] then ''null'' else v),
                       v_id_attribute = id_attribute attr, v_id_entity = e\<rparr>]\<rparr>"
    have "save_values l src e (kv # es) s = save_values l src e es ?s2"
      using Some kv by (simp add: uuidv4_def)
    with Cons [of ?s2] show ?thesis by simp
  qed
qed

lemma save_field_mappings_frame:
  "fs_groups (save_field_mappings l src g u s) = fs_groups s
   \<and> uuid_stream (save_field_mappings l src g u s) = uuid_stream s
   \<and> uuid_next s \<le> uuid_next (save_field_mappings l src g u s)
   \<and> events (save_field_mappings l src g u s) = events s
   \<and> webhooks (save_field_mappings l src g u s) = webhooks s
   \<and> connections (save_field_mappings l src g u s) = connections s"
proof (cases "case ug_field_mappings g of None \<Rightarrow> False
          | Some fm \<Rightarrow> (case fm_length fm of None \<Rightarrow> False | Some n \<Rightarrow> 0 < n)")
  case True
  let ?s2 = "s\<lparr>uuid_next := Suc (uuid_next s), entity := entity s @
                   [\<lparr>id_entity = uuid_stream s (uuid_next s), e_ressource_owner_id = u\<rparr>]\<rparr>"
  have "save_field_mappings l src g u s
        = save_values l src (uuid_stream s (uuid_next s)) (fm_entries (the (ug_field_mappings g))) ?s2"
    using True by (simp add: save_field_mappings_def uuidv4_def)
  with save_values_frame [of l src "uuid_stream s (uuid_next s)" "fm_entries (the (ug_field_mappings g))" ?s2]
  show ?thesis by simp
next
  case False
  then show ?thesis by (simp add: save_field_mappings_def)
qed

lemma upsert_remote_data_frame:
  "fs_groups (upsert_remote_data u d s) = fs_groups s
   \<and> uuid_stream (upsert_remote_data u d s) = uuid_stream s
   \<and> uuid_next s \<le> uuid_next (upsert_remote_data u d s)
   \<and> events (upsert_remote_data u d s) = events s
   \<and> webhooks (upsert_remote_data u d s) = webhooks s
   \<and> connections (upsert_remote_data u d s) = connections s"
  by (simp add: upsert_remote_data_def uuidv4_def new_Date_def split: option.split)

lemma fs_groups_wf_frame:
  "fs_groups_wf s \<Longrightarrow> fs_groups s' = fs_groups s \<Longrightarrow> uuid_stream s' = uuid_stream s \<Longrightarrow>
   uuid_next s \<le> uuid_next s' \<Longrightarrow> fs_groups_wf s'"
  by (auto simp: fs_groups_wf_def)

lemma update_or_create_present:
  assumes "distinct (map id_fs_group (fs_groups s))"
    and "find (\<lambda>r. g_remote_id r = originId \<and> g_id_connection r = c) (fs_groups s) = Some e"
  shows "update_or_create_group c g originId s =
     (Inr (group_data g (e\<lparr>g_modified_at := date_stream s (date_next s)\<rparr>)),
      s\<lparr>date_next := Suc (date_next s),
        fs_groups := update_first (\<lambda>r. g_remote_id r = originId \<and> g_id_connection r = c)
           (\<lambda>r. group_data g (r\<lparr>g_modified_at := date_stream s (date_next s)\<rparr>)) (fs_groups s)\<rparr>)"
  using assms(2) prisma_update_found [OF assms, of "\<lambda>r. group_data g (r\<lparr>g_modified_at := date_stream s (date_next s)\<rparr>)"]
  by (simp add: update_or_create_group_def new_Date_def)

lemma update_or_create_absent:
  assumes "find (\<lambda>r. g_remote_id r = originId \<and> g_id_connection r = c) (fs_groups s) = None"
  shows "update_or_create_group c g originId s =
     (Inr (group_data g
            \<lparr>id_fs_group = uuid_stream s (uuid_next s), g_name = None, g_users = None,
             g_remote_was_deleted = None, g_remote_id = originId, g_id_connection = c,
             g_created_at = date_stream s (date_next s),
             g_modified_at = date_stream s (Suc (date_next s))\<rparr>),
      s\<lparr>uuid_next := Suc (uuid_next s), date_next := Suc (Suc (date_next s)),
        fs_groups := fs_groups s @ [group_data g
            \<lparr>id_fs_group = uuid_stream s (uuid_next s), g_name = None, g_users = None,
             g_remote_was_deleted = None, g_remote_id = originId, g_id_connection = c,
             g_created_at = date_stream s (date_next s),
             g_modified_at = date_stream s (Suc (date_next s))\<rparr>]\<rparr>)"
  using assms by (simp add: update_or_create_group_def new_Date_def uuidv4_def Let_def)

lemma truthy_str_Some: "truthy_str x \<Longrightarrow> x \<noteq> Some [] \<and> x \<noteq> None"
  by (auto simp: truthy_str_def split: option.splits)

lemma loop_Cons:
  assumes "truthy_str (ug_remote_id g)"
  shows "saveGroupsInDb_loop c l src rd (g # gs) i res s =
     (case update_or_create_group c g (ug_remote_id g) s of
        (Inl e, s1) \<Rightarrow> (Inl e, s1)
      | (Inr r, s1) \<Rightarrow>
          saveGroupsInDb_loop c l src rd gs (Suc i) (res @ [r])
            (upsert_remote_data (id_fs_group r) (if i < length rd then Some (rd ! i) else None)
               (save_field_mappings l src g (id_fs_group r) s1)))"
  using truthy_str_Some [OF assms] assms
  by (simp add: Let_def split: prod.split sum.split)

lemma after_frame:
  "fs_groups (upsert_remote_data u d (save_field_mappings l src g u' s)) = fs_groups s
   \<and> uuid_stream (upsert_remote_data u d (save_field_mappings l src g u' s)) = uuid_stream s
   \<and> uuid_next s \<le> uuid_next (upsert_remote_data u d (save_field_mappings l src g u' s))
   \<and> events (upsert_remote_data u d (save_field_mappings l src g u' s)) = events s
   \<and> webhooks (upsert_remote_data u d (save_field_mappings l src g u' s)) = webhooks s
   \<and> connections (upsert_remote_data u d (save_field_mappings l src g u' s)) = connections s"
  using upsert_remote_data_frame [of u d "save_field_mappings l src g u' s"]
    save_field_mappings_frame [of l src g u' s]
  by auto

lemma map_update_first:
  "(\<And>r. P' (h r) = P r) \<Longrightarrow> (\<And>r. h (f r) = f' (h r)) \<Longrightarrow>
   map h (update_first P f xs) = update_first P' f' (map h xs)"
  by (induction xs) auto

lemma upsert_fold_Cons:
  "upsert_fold key kg patch (g # gs) X
   = upsert_fold key kg patch gs (update_first (\<lambda>r. key r = kg g) (patch g) X)"
  by (simp add: upsert_fold_def)

lemma upsert_fold_map:
  "(\<And>g r. h (patch g r) = h r) \<Longrightarrow> map h (upsert_fold key kg patch gs X) = map h X"
  by (induction gs arbitrary: X) (simp_all add: upsert_fold_def update_first_map)

lemma key_pred:
  "(g_remote_id r = ug_remote_id g \<and> g_id_connection r = c) \<longleftrightarrow> group_key r = unified_group_key c g"
  by (auto simp: group_key_def unified_group_key_def)

lemma save_loop_sim:
  assumes "fs_groups_wf s" "\<forall>g\<in>set gs. truthy_str (ug_remote_id g)"
  shows "\<exists>rows s' B. saveGroupsInDb_loop c l src rd gs i res s = (Inr rows, s')
     \<and> fs_groups_wf s' \<and> length rows = length res + length gs
     \<and> map group_unstamped (fs_groups s')
         = upsert_fold group_key (unified_group_key c) group_data gs
             (map group_unstamped (fs_groups s) @ B)
     \<and> distinct (map group_key B)
     \<and> set (map group_key B) \<inter> set (map group_key (fs_groups s)) = {}
     \<and> set (map group_key B) \<subseteq> unified_group_key c ` set gs
     \<and> unified_group_key c ` set gs \<subseteq> set (map group_key (fs_groups s)) \<union> set (map group_key B)
     \<and> events s' = events s \<and> webhooks s' = webhooks s \<and> connections s' = connections s"
  using assms
proof (induction gs arbitrary: s i res)
  case Nil
  show ?case
    using Nil.prems by (auto simp: upsert_fold_def intro!: exI [of _ "[]"])
next
  case (Cons g gs)
  let ?P = "\<lambda>r. g_remote_id r = ug_remote_id g \<and> g_id_connection r = c"
  let ?k = "unified_group_key c g"
  let ?T = "fs_groups s"
  from Cons.prems have tr: "truthy_str (ug_remote_id g)"
    and rest: "\<forall>g\<in>set gs. truthy_str (ug_remote_id g)" by simp_all
  from Cons.prems have wf: "fs_groups_wf s" by simp
  then have dist: "distinct (map id_fs_group ?T)" by (simp add: fs_groups_wf_def)
  have Pk: "?P r \<longleftrightarrow> group_key r = ?k" for r by (rule key_pred)
  show ?case
  proof (cases "find ?P ?T")
    case (Some e)
    let ?f = "\<lambda>r. group_data g (r\<lparr>g_modified_at := date_stream s (date_next s)\<rparr>)"
    let ?s1 = "s\<lparr>date_next := Suc (date_next s), fs_groups := update_first ?P ?f ?T\<rparr>"
    let ?s3 = "upsert_remote_data (id_fs_group (?f e)) (if i < length rd then Some (rd ! i) else None)
               (save_field_mappings l src g (id_fs_group (?f e)) ?s1)"
    have step: "saveGroupsInDb_loop c l src rd (g # gs) i res s
          = saveGroupsInDb_loop c l src rd gs (Suc i) (res @ [?f e]) ?s3"
      by (subst loop_Cons [OF tr])
         (simp add: update_or_create_present [OF dist Some] del: saveGroupsInDb_loop.simps)
    note fr = after_frame [of "id_fs_group (?f e)" "if i < length rd then Some (rd ! i) else None"
        l src g "id_fs_group (?f e)" ?s1]
    have ids: "map id_fs_group (update_first ?P ?f ?T) = map id_fs_group ?T"
      by (rule update_first_map) simp
    have keys: "map group_key (update_first ?P ?f ?T) = map group_key ?T"
      by (rule update_first_map) (simp add: group_key_def)
    have wf1: "fs_groups_wf ?s1"
      using wf by (simp add: fs_groups_wf_def ids)
    have wf3: "fs_groups_wf ?s3"
      using fr by (intro fs_groups_wf_frame [OF wf1]) simp_all
    from Cons.IH [OF wf3 rest, of "Suc i" "res @ [?f e]"]
    obtain rows s' B where ih:
      "saveGroupsInDb_loop c l src rd gs (Suc i) (res @ [?f e]) ?s3 = (Inr rows, s')"
      "fs_groups_wf s'" "length rows = length (res @ [?f e]) + length gs"
      "map group_unstamped (fs_groups s')
         = upsert_fold group_key (unified_group_key c) group_data gs
             (map group_unstamped (fs_groups ?s3) @ B)"
      "distinct (map group_key B)"
      "set (map group_key B) \<inter> set (map group_key (fs_groups ?s3)) = {}"
      "set (map group_key B) \<subseteq> unified_group_key c ` set gs"
      "unified_group_key c ` set gs \<subseteq> set (map group_key (fs_groups ?s3)) \<union> set (map group_key B)"
      "events s' = events ?s3" "webhooks s' = webhooks ?s3" "connections s' = connections ?s3"
      by blast
    have T3: "fs_groups ?s3 = update_first ?P ?f ?T" using fr by simp
    have un: "map group_unstamped (update_first ?P ?f ?T)
          = update_first (\<lambda>r. group_key r = ?k) (group_data g) (map group_unstamped ?T)"
    proof (rule map_update_first)
      show "(group_key (group_unstamped r) = ?k) = ?P r" for r by (simp add: Pk)
      show "group_unstamped (?f r) = group_data g (group_unstamped r)" for r
        by (rule group_unstamped_data)
    qed
    from Some have "e \<in> set ?T" "?P e" by (auto dest: find_member)
    then have pres: "\<exists>x\<in>set (map group_unstamped ?T). group_key x = ?k"
      by (auto simp: Pk intro!: bexI [of _ e])
    have app: "update_first (\<lambda>r. group_key r = ?k) (group_data g) (map group_unstamped ?T) @ B
          = update_first (\<lambda>r. group_key r = ?k) (group_data g) (map group_unstamped ?T @ B)"
      by (rule update_first_append [symmetric]) (rule pres)
    have E: "map group_unstamped (fs_groups s')
         = upsert_fold group_key (unified_group_key c) group_data (g # gs)
             (map group_unstamped ?T @ B)"
      by (simp only: ih(4) T3 un app upsert_fold_Cons)
    have kin: "?k \<in> set (map group_key ?T)"
      using \<open>e \<in> set ?T\<close> \<open>?P e\<close> by (auto simp: Pk intro!: image_eqI [of _ _ e])
    have c1: "set (map group_key B) \<inter> set (map group_key ?T) = {}"
      using ih(6) unfolding T3 keys .
    have c2: "set (map group_key B) \<subseteq> unified_group_key c ` set (g # gs)"
      using ih(7) by auto
    have c3: "unified_group_key c ` set (g # gs) \<subseteq> set (map group_key ?T) \<union> set (map group_key B)"
      using ih(8) kin unfolding T3 keys by auto
    have fr': "events s' = events s" "webhooks s' = webhooks s" "connections s' = connections s"
      using ih(9,10,11) fr by simp_all
    have len: "length rows = length res + length (g # gs)" using ih(3) by simp
    show ?thesis
      unfolding step ih(1)
      using ih(2) len E ih(5) c1 c2 c3 fr'
      by (intro exI [of _ rows] exI [of _ s'] exI [of _ B] conjI) simp_all
  next
    case None
    let ?new = "group_data g
            \<lparr>id_fs_group = uuid_stream s (uuid_next s), g_name = None, g_users = None,
             g_remote_was_deleted = None, g_remote_id = ug_remote_id g, g_id_connection = c,
             g_created_at = date_stream s (date_next s),
             g_modified_at = date_stream s (Suc (date_next s))\<rparr>"
    let ?b = "\<lparr>id_fs_group = uuid_stream s (uuid_next s), g_name = None, g_users = None,
             g_remote_was_deleted = None, g_remote_id = ug_remote_id g, g_id_connection = c,
             g_created_at = date_stream s (date_next s), g_modified_at = 0\<rparr>"
    let ?s1 = "s\<lparr>uuid_next := Suc (uuid_next s), date_next := Suc (Suc (date_next s)),
        fs_groups := ?T @ [?new]\<rparr>"
    let ?s3 = "upsert_remote_data (id_fs_group ?new) (if i < length rd then Some (rd ! i) else None)
               (save_field_mappings l src g (id_fs_group ?new) ?s1)"
    have step: "saveGroupsInDb_loop c l src rd (g # gs) i res s
          = saveGroupsInDb_loop c l src rd gs (Suc i) (res @ [?new]) ?s3"
      by (subst loop_Cons [OF tr])
         (simp add: update_or_create_absent [OF None] del: saveGroupsInDb_loop.simps)
    note fr = after_frame [of "id_fs_group ?new" "if i < length rd then Some (rd ! i) else None"
        l src g "id_fs_group ?new" ?s1]
    have idnew: "id_fs_group ?new = uuid_stream s (uuid_next s)" by simp
    have knew: "group_key ?new = ?k" by (simp add: group_key_def unified_group_key_def)
    have kb: "group_key ?b = ?k" by (simp add: group_key_def unified_group_key_def)
    have unnew: "group_unstamped ?new = group_data g ?b"
      by (simp add: group_unstamped_def group_data_write group_write_def)
    have wf1: "fs_groups_wf ?s1"
    proof -
      from wf have fresh: "\<forall>i\<in>set (map id_fs_group ?T). \<forall>n\<ge>uuid_next s. i \<noteq> uuid_stream s n"
        and inj: "inj (uuid_stream s)" by (simp_all add: fs_groups_wf_def)
      from fresh have "uuid_stream s (uuid_next s) \<notin> set (map id_fs_group ?T)" by blast
      moreover have "\<forall>n\<ge>Suc (uuid_next s). uuid_stream s (uuid_next s) \<noteq> uuid_stream s n"
        using inj by (auto dest: injD)
      moreover from fresh have "\<forall>i\<in>set (map id_fs_group ?T). \<forall>n\<ge>Suc (uuid_next s). i \<noteq> uuid_stream s n"
        by (meson Suc_leD)
      ultimately show ?thesis
        using dist inj unfolding fs_groups_wf_def by (simp add: idnew)
    qed
    have wf3: "fs_groups_wf ?s3"
      using fr by (intro fs_groups_wf_frame [OF wf1]) simp_all
    from Cons.IH [OF wf3 rest, of "Suc i" "res @ [?new]"]
    obtain rows s' B where ih:
      "saveGroupsInDb_loop c l src rd gs (Suc i) (res @ [?new]) ?s3 = (Inr rows, s')"
      "fs_groups_wf s'" "length rows = length (res @ [?new]) + length gs"
      "map group_unstamped (fs_groups s')
         = upsert_fold group_key (unified_group_key c) group_data gs
             (map group_unstamped (fs_groups ?s3) @ B)"
      "distinct (map group_key B)"
      "set (map group_key B) \<inter> set (map group_key (fs_groups ?s3)) = {}"
      "set (map group_key B) \<subseteq> unified_group_key c ` set gs"
      "unified_group_key c ` set gs \<subseteq> set (map group_key (fs_groups ?s3)) \<union> set (map group_key B)"
      "events s' = events ?s3" "webhooks s' = webhooks ?s3" "connections s' = connections ?s3"
      by blast
    have T3: "fs_groups ?s3 = ?T @ [?new]" using fr by simp
    from None have abs: "\<forall>x\<in>set (map group_unstamped ?T). \<not> group_key x = ?k"
      by (auto simp: find_None_iff Pk)
    have app: "map group_unstamped (?T @ [?new]) @ B
          = update_first (\<lambda>r. group_key r = ?k) (group_data g) (map group_unstamped ?T @ (?b # B))"
      using kb by (simp add: update_first_append_absent [OF abs] unnew)
    have E: "map group_unstamped (fs_groups s')
         = upsert_fold group_key (unified_group_key c) group_data (g # gs)
             (map group_unstamped ?T @ (?b # B))"
      by (simp only: ih(4) T3 app upsert_fold_Cons)
    from None have kout: "?k \<notin> set (map group_key ?T)"
      by (auto simp: find_None_iff Pk)
    from ih(6) have kB: "?k \<notin> set (map group_key B)"
      unfolding T3 using knew by auto
    have c0: "distinct (map group_key (?b # B))" using ih(5) kB kb by simp
    have c1: "set (map group_key (?b # B)) \<inter> set (map group_key ?T) = {}"
      using ih(6) kout kb unfolding T3 by auto
    have c2: "set (map group_key (?b # B)) \<subseteq> unified_group_key c ` set (g # gs)"
      using ih(7) kb by auto
    have c3: "unified_group_key c ` set (g # gs)
          \<subseteq> set (map group_key ?T) \<union> set (map group_key (?b # B))"
      using ih(8) kb knew unfolding T3 by auto
    have fr': "events s' = events s" "webhooks s' = webhooks s" "connections s' = connections s"
      using ih(9,10,11) fr by simp_all
    have len: "length rows = length res + length (g # gs)" using ih(3) by simp
    show ?thesis
      unfolding step ih(1)
      using ih(2) len E c0 c1 c2 c3 fr'
      by (intro exI [of _ rows] exI [of _ s'] exI [of _ "?b # B"] conjI) simp_all
  qed
qed

lemma group_unstamped_fields [simp]:
  "id_fs_group (group_unstamped r) = id_fs_group r"
  by (simp add: group_unstamped_def)

lemma upserted_from_sim:
  assumes E: "map un T1 = upsert_fold key kg patch gs (map un T0 @ B)"
    and ku: "\<And>r. key (un r) = key r" and iu: "\<And>r. ident (un r) = ident r"
    and kp: "\<And>g r. key (patch g r) = key r" and ip: "\<And>g r. ident (patch g r) = ident r"
    and d: "distinct (map key B)"
    and dis: "set (map key B) \<inter> set (map key T0) = {}"
    and sub: "set (map key B) \<subseteq> kg ` set gs"
    and sup: "kg ` set gs \<subseteq> set (map key T0) \<union> set (map key B)"
  shows "upserted key ident (map kg gs) T0 T1"
proof -
  have k: "map key T1 = map key T0 @ map key B"
  proof -
    have "map key T1 = map key (map un T1)" by (simp add: ku)
    also have "\<dots> = map key (map un T0 @ B)"
      unfolding E by (rule upsert_fold_map) (rule kp)
    finally show ?thesis by (simp add: ku)
  qed
  have i: "map ident T1 = map ident T0 @ map ident B"
  proof -
    have "map ident T1 = map ident (map un T1)" by (simp add: iu)
    also have "\<dots> = map ident (map un T0 @ B)"
      unfolding E by (rule upsert_fold_map) (rule ip)
    finally show ?thesis by (simp add: iu)
  qed
  have t: "map key (take (length T0) T1) = map key T0"
    using arg_cong [OF k, of "take (length T0)"] by (simp add: take_map)
  have t': "map ident (take (length T0) T1) = map ident T0"
    using arg_cong [OF i, of "take (length T0)"] by (simp add: take_map)
  have dr: "map key (drop (length T0) T1) = map key B"
    using arg_cong [OF k, of "drop (length T0)"] by (simp add: drop_map)
  have "set (map key B) = set (map kg gs) - set (map key T0)"
    using dis sub sup by auto
  with t t' dr d show ?thesis by (simp add: upserted_def)
qed

lemma save_groups_sim:
  assumes "fs_groups_wf s" "\<forall>g\<in>set gs. truthy_str (ug_remote_id g)"
  shows "\<exists>rows s' B. saveGroupsInDb c l gs src rd s = (Inr rows, s')
     \<and> fs_groups_wf s' \<and> length rows = length gs
     \<and> map group_unstamped (fs_groups s')
         = upsert_fold group_key (unified_group_key c) group_data gs
             (map group_unstamped (fs_groups s) @ B)
     \<and> distinct (map group_key B)
     \<and> set (map group_key B) \<inter> set (map group_key (fs_groups s)) = {}
     \<and> set (map group_key B) \<subseteq> unified_group_key c ` set gs
     \<and> unified_group_key c ` set gs \<subseteq> set (map group_key (fs_groups s)) \<union> set (map group_key B)"
  using save_loop_sim [OF assms, of c l src rd 0 "[]"]
  unfolding saveGroupsInDb_def by (elim exE conjE) (intro exI conjI, simp_all)

lemma save_groups_upserted:
  assumes "fs_groups_wf s" "\<forall>g\<in>set gs. truthy_str (ug_remote_id g)"
  shows "(\<exists>rows. fst (saveGroupsInDb c l gs src rd s) = Inr rows \<and> length rows = length gs)
       \<and> fs_groups_wf (snd (saveGroupsInDb c l gs src rd s))
       \<and> upserted group_key id_fs_group (map (unified_group_key c) gs) (fs_groups s)
           (fs_groups (snd (saveGroupsInDb c l gs src rd s)))"
proof -
  from save_groups_sim [OF assms, of c l src rd] obtain rows s' B where r:
    "saveGroupsInDb c l gs src rd s = (Inr rows, s')"
    "fs_groups_wf s'" "length rows = length gs"
    "map group_unstamped (fs_groups s')
         = upsert_fold group_key (unified_group_key c) group_data gs
             (map group_unstamped (fs_groups s) @ B)"
    "distinct (map group_key B)"
    "set (map group_key B) \<inter> set (map group_key (fs_groups s)) = {}"
    "set (map group_key B) \<subseteq> unified_group_key c ` set gs"
    "unified_group_key c ` set gs \<subseteq> set (map group_key (fs_groups s)) \<union> set (map group_key B)"
    by blast
  have "upserted group_key id_fs_group (map (unified_group_key c) gs) (fs_groups s) (fs_groups s')"
  proof (rule upserted_from_sim [where un = group_unstamped and patch = group_data
        and kg = "unified_group_key c" and B = B])
    show "map group_unstamped (fs_groups s') = upsert_fold group_key (unified_group_key c) group_data gs
             (map group_unstamped (fs_groups s) @ B)" by (rule r(4))
  qed (use r(5,6,7,8) in simp_all)
  with r(1,2,3) show ?thesis by simp
qed

lemma save_group_single:
  assumes d: "distinct (map id_fs_group (fs_groups s))" and t: "truthy_str (ug_remote_id g)"
  shows "fs_groups (snd (saveGroupsInDb c l [g] src rd s)) =
     (case find (\<lambda>r. group_key r = unified_group_key c g) (fs_groups s) of
        Some e \<Rightarrow> update_first (\<lambda>r. group_key r = unified_group_key c g)
                    (\<lambda>r. group_data g (r\<lparr>g_modified_at := date_stream s (date_next s)\<rparr>)) (fs_groups s)
      | None \<Rightarrow> fs_groups s @ [group_data g
            \<lparr>id_fs_group = uuid_stream s (uuid_next s), g_name = None, g_users = None,
             g_remote_was_deleted = None, g_remote_id = ug_remote_id g, g_id_connection = c,
             g_created_at = date_stream s (date_next s),
             g_modified_at = date_stream s (Suc (date_next s))\<rparr>])"
proof -
  have P: "(\<lambda>r. g_remote_id r = ug_remote_id g \<and> g_id_connection r = c)
         = (\<lambda>r. group_key r = unified_group_key c g)"
    by (rule ext) (rule key_pred)
  show ?thesis
  proof (cases "find (\<lambda>r. group_key r = unified_group_key c g) (fs_groups s)")
    case None
    with update_or_create_absent [of "ug_remote_id g" c s g] after_frame
    show ?thesis
      unfolding saveGroupsInDb_def
      by (subst loop_Cons [OF t]) (simp add: P)
  next
    case (Some e)
    with update_or_create_present [OF d, of "ug_remote_id g" c e g] after_frame
    show ?thesis
      unfolding saveGroupsInDb_def
      by (subst loop_Cons [OF t]) (simp add: P)
  qed
qed

lemma save_groups_simE:
  assumes "fs_groups_wf s" "\<forall>g\<in>set gs. truthy_str (ug_remote_id g)"
  obtains rows s' B where
    "saveGroupsInDb c l gs src rd s = (Inr rows, s')"
    "fs_groups_wf s'" "length rows = length gs"
    "map group_unstamped (fs_groups s')
         = upsert_fold group_key (unified_group_key c) group_data gs
             (map group_unstamped (fs_groups s) @ B)"
    "distinct (map group_key B)"
    "set (map group_key B) \<inter> set (map group_key (fs_groups s)) = {}"
    "set (map group_key B) \<subseteq> unified_group_key c ` set gs"
    "unified_group_key c ` set gs \<subseteq> set (map group_key (fs_groups s)) \<union> set (map group_key B)"
  using save_groups_sim [OF assms, of c l src rd] by (elim exE conjE) (rule that)

lemma subset_disjoint_empty: "A \<subseteq> C \<Longrightarrow> A \<inter> C = {} \<Longrightarrow> A = {}"
  by auto

lemma save_groups_idem:
  assumes "fs_groups_wf s" "\<forall>g\<in>set gs. truthy_str (ug_remote_id g)"
  shows "map group_unstamped
           (fs_groups (snd (saveGroupsInDb c l gs src rd' (snd (saveGroupsInDb c l gs src rd s)))))
         = map group_unstamped (fs_groups (snd (saveGroupsInDb c l gs src rd s)))"
proof -
  let ?UF = "upsert_fold group_key (unified_group_key c) group_data gs"
  obtain rows s1 B where r:
    "saveGroupsInDb c l gs src rd s = (Inr rows, s1)"
    "fs_groups_wf s1" "length rows = length gs"
    "map group_unstamped (fs_groups s1) = ?UF (map group_unstamped (fs_groups s) @ B)"
    "distinct (map group_key B)"
    "set (map group_key B) \<inter> set (map group_key (fs_groups s)) = {}"
    "set (map group_key B) \<subseteq> unified_group_key c ` set gs"
    "unified_group_key c ` set gs \<subseteq> set (map group_key (fs_groups s)) \<union> set (map group_key B)"
    by (rule save_groups_simE [OF assms])
  obtain rows2 s2 B2 where r2:
    "saveGroupsInDb c l gs src rd' s1 = (Inr rows2, s2)"
    "fs_groups_wf s2" "length rows2 = length gs"
    "map group_unstamped (fs_groups s2) = ?UF (map group_unstamped (fs_groups s1) @ B2)"
    "distinct (map group_key B2)"
    "set (map group_key B2) \<inter> set (map group_key (fs_groups s1)) = {}"
    "set (map group_key B2) \<subseteq> unified_group_key c ` set gs"
    "unified_group_key c ` set gs \<subseteq> set (map group_key (fs_groups s1)) \<union> set (map group_key B2)"
    by (rule save_groups_simE [OF r(2) assms(2)])
  have k1: "map group_key (fs_groups s1) = map group_key (fs_groups s) @ map group_key B"
  proof -
    have "map group_key (fs_groups s1) = map group_key (map group_unstamped (fs_groups s1))"
      by simp
    also have "\<dots> = map group_key (map group_unstamped (fs_groups s) @ B)"
      unfolding r(4) by (rule upsert_fold_map) simp
    finally show ?thesis by simp
  qed
  have k2: "set (map group_key (fs_groups s1))
            = set (map group_key (fs_groups s)) \<union> set (map group_key B)"
    by (simp only: k1 set_append)
  have "set (map group_key B2) \<subseteq> set (map group_key (fs_groups s)) \<union> set (map group_key B)"
    using r2(7) r(8) by (rule subset_trans)
  then have "set (map group_key B2) \<subseteq> set (map group_key (fs_groups s1))"
    by (simp only: k2)
  then have "set (map group_key B2) = {}"
    using r2(6) by (rule subset_disjoint_empty)
  then have B2: "B2 = []" by simp
  have "map group_unstamped (fs_groups s2) = ?UF (?UF (map group_unstamped (fs_groups s) @ B))"
    by (simp only: r2(4) B2 r(4) append_Nil2)
  also have "\<dots> = ?UF (map group_unstamped (fs_groups s) @ B)"
    by (rule group_upsert_fold_idem)
  finally have "map group_unstamped (fs_groups s2) = map group_unstamped (fs_groups s1)"
    by (simp only: r(4))
  then show ?thesis by (simp only: r(1) snd_conv r2(1))
qed

lemma update_or_create_group_ok:
  "\<exists>res s1. update_or_create_group c g oid s = (Inr res, s1)
     \<and> events s1 = events s \<and> webhooks s1 = webhooks s
     \<and> set (map group_key (fs_groups s1)) = insert (oid, c) (set (map group_key (fs_groups s)))"
proof (cases "find (\<lambda>r. g_remote_id r = oid \<and> g_id_connection r = c) (fs_groups s)")
  case None
  show ?thesis
    unfolding update_or_create_absent [OF None]
    by (intro exI conjI, rule refl) (auto simp: group_key_def)
next
  case (Some e)
  then have e: "e \<in> set (fs_groups s)" "g_remote_id e = oid" "g_id_connection e = c"
    by (auto dest: find_member)
  let ?f = "\<lambda>r. group_data g (r\<lparr>g_modified_at := date_stream s (date_next s)\<rparr>)"
  from prisma_update_member [OF e(1), of id_fs_group ?f]
  obtain res where res: "prisma_update (\<lambda>y. id_fs_group y = id_fs_group e) ?f (fs_groups s)
      = Inr (res, update_first (\<lambda>y. id_fs_group y = id_fs_group e) ?f (fs_groups s))" ..
  have keys: "map group_key (update_first (\<lambda>y. id_fs_group y = id_fs_group e) ?f (fs_groups s))
      = map group_key (fs_groups s)"
    by (rule update_first_map) (simp add: group_key_def)
  have "(oid, c) \<in> set (map group_key (fs_groups s))"
    using e by (auto simp: group_key_def intro!: image_eqI [of _ _ e])
  then have ins: "insert (oid, c) (set (map group_key (fs_groups s))) = set (map group_key (fs_groups s))"
    by (rule insert_absorb)
  from arg_cong [OF keys, of set]
  have keys': "group_key ` set (update_first (\<lambda>y. id_fs_group y = id_fs_group e) ?f (fs_groups s))
      = group_key ` set (fs_groups s)" by simp
  show ?thesis
    using Some res keys' ins
    by (simp add: update_or_create_group_def new_Date_def)
qed

lemma save_loop_ok:
  assumes "\<forall>g\<in>set gs. truthy_str (ug_remote_id g)"
  shows "\<exists>rows s'. saveGroupsInDb_loop c l src rd gs i res s = (Inr rows, s')
     \<and> length rows = length res + length gs
     \<and> events s' = events s \<and> webhooks s' = webhooks s
     \<and> set (map group_key (fs_groups s'))
         = unified_group_key c ` set gs \<union> set (map group_key (fs_groups s))"
  using assms
proof (induction gs arbitrary: s i res)
  case Nil
  then show ?case by simp
next
  case (Cons g gs)
  from Cons.prems have tr: "truthy_str (ug_remote_id g)"
    and rest: "\<forall>g\<in>set gs. truthy_str (ug_remote_id g)" by simp_all
  from update_or_create_group_ok [of c g "ug_remote_id g" s]
  obtain r s1 where u: "update_or_create_group c g (ug_remote_id g) s = (Inr r, s1)"
      "events s1 = events s" "webhooks s1 = webhooks s"
      "set (map group_key (fs_groups s1))
         = insert (ug_remote_id g, c) (set (map group_key (fs_groups s)))" by blast
  let ?s3 = "upsert_remote_data (id_fs_group r) (if i < length rd then Some (rd ! i) else None)
               (save_field_mappings l src g (id_fs_group r) s1)"
  note fr = after_frame [of "id_fs_group r" "if i < length rd then Some (rd ! i) else None"
        l src g "id_fs_group r" s1]
  have step: "saveGroupsInDb_loop c l src rd (g # gs) i res s
          = saveGroupsInDb_loop c l src rd gs (Suc i) (res @ [r]) ?s3"
    by (subst loop_Cons [OF tr]) (simp add: u(1) del: saveGroupsInDb_loop.simps)
  from Cons.IH [OF rest, of "Suc i" "res @ [r]" ?s3]
  obtain rows s' where ih:
      "saveGroupsInDb_loop c l src rd gs (Suc i) (res @ [r]) ?s3 = (Inr rows, s')"
      "length rows = length (res @ [r]) + length gs"
      "events s' = events ?s3" "webhooks s' = webhooks ?s3"
      "set (map group_key (fs_groups s'))
         = unified_group_key c ` set gs \<union> set (map group_key (fs_groups ?s3))" by blast
  have k: "set (map group_key (fs_groups s'))
         = unified_group_key c ` set (g # gs) \<union> set (map group_key (fs_groups s))"
    using ih(5) fr u(4) by (auto simp: unified_group_key_def)
  have "events s' = events s" "webhooks s' = webhooks s"
    using ih(3,4) fr u(2,3) by simp_all
  with ih(2) k show ?case
    unfolding step ih(1) by simp
qed

lemma save_loop_append:
  assumes "saveGroupsInDb_loop c l src rd pre i res s = (Inr rows, s1)"
  shows "saveGroupsInDb_loop c l src rd (pre @ rest) i res s
         = saveGroupsInDb_loop c l src rd rest (i + length pre) rows s1"
  using assms
proof (induction pre arbitrary: i res s)
  case Nil
  then show ?case by simp
next
  case (Cons g pre)
  show ?case
  proof (cases "truthy_str (ug_remote_id g)")
    case False
    with Cons.prems show ?thesis
      by (auto simp: truthy_str_def split: option.splits)
  next
    case True
    show ?thesis
    proof (cases "update_or_create_group c g (ug_remote_id g) s")
      case (Pair x s0)
      show ?thesis
      proof (cases x)
        case (Inl e)
        with Pair Cons.prems show ?thesis
          by (simp add: loop_Cons [OF True] del: saveGroupsInDb_loop.simps)
      next
        case (Inr r)
        let ?s3 = "upsert_remote_data (id_fs_group r) (if i < length rd then Some (rd ! i) else None)
               (save_field_mappings l src g (id_fs_group r) s0)"
        from Cons.prems Pair Inr
        have "saveGroupsInDb_loop c l src rd pre (Suc i) (res @ [r]) ?s3 = (Inr rows, s1)"
          by (simp add: loop_Cons [OF True] del: saveGroupsInDb_loop.simps)
        from Cons.IH [OF this] Pair Inr show ?thesis
          by (simp add: loop_Cons [OF True] del: saveGroupsInDb_loop.simps)
      qed
    qed
  qed
qed

lemma save_loop_bad:
  "\<not> truthy_str (ug_remote_id g) \<Longrightarrow>
   saveGroupsInDb_loop c l src rd (g # post) i res s = (Inl ReferenceError, s)"
  by (auto simp: truthy_str_def split: option.splits)

lemma save_groups_not_atomic:
  assumes "\<forall>x\<in>set pre. truthy_str (ug_remote_id x)" "\<not> truthy_str (ug_remote_id g)"
  shows "\<exists>rows s1. saveGroupsInDb c l pre src rd s = (Inr rows, s1) \<and> length rows = length pre
           \<and> saveGroupsInDb c l (pre @ g # post) src rd s = (Inl ReferenceError, s1)
           \<and> (\<forall>x\<in>set pre. \<exists>r\<in>set (fs_groups s1). group_key r = unified_group_key c x)"
proof -
  from save_loop_ok [OF assms(1), of c l src rd 0 "[]" s]
  obtain rows s1 where r: "saveGroupsInDb_loop c l src rd pre 0 [] s = (Inr rows, s1)"
      "length rows = length pre"
      "set (map group_key (fs_groups s1))
         = unified_group_key c ` set pre \<union> set (map group_key (fs_groups s))" by auto
  have "saveGroupsInDb_loop c l src rd (pre @ g # post) 0 [] s = (Inl ReferenceError, s1)"
    unfolding save_loop_append [OF r(1)] by (rule save_loop_bad [OF assms(2)])
  moreover have "\<forall>x\<in>set pre. \<exists>r\<in>set (fs_groups s1). group_key r = unified_group_key c x"
  proof
    fix x assume "x \<in> set pre"
    then have "unified_group_key c x \<in> set (map group_key (fs_groups s1))"
      unfolding r(3) by simp
    then show "\<exists>r\<in>set (fs_groups s1). group_key r = unified_group_key c x" by auto
  qed
  ultimately show ?thesis
    using r(1,2) unfolding saveGroupsInDb_def by simp
qed

lemma saveGroupsInDb_loop_frame:
  "events (snd (saveGroupsInDb_loop c l src rd gs i res s)) = events s
   \<and> webhooks (snd (saveGroupsInDb_loop c l src rd gs i res s)) = webhooks s"
proof (induction gs arbitrary: s i res)
  case Nil
  then show ?case by simp
next
  case (Cons g gs)
  show ?case
  proof (cases "truthy_str (ug_remote_id g)")
    case False
    then show ?thesis by (simp add: save_loop_bad)
  next
    case True
    from update_or_create_group_ok [of c g "ug_remote_id g" s]
    obtain r s1 where u: "update_or_create_group c g (ug_remote_id g) s = (Inr r, s1)"
      "events s1 = events s" "webhooks s1 = webhooks s" by blast
    let ?s3 = "upsert_remote_data (id_fs_group r) (if i < length rd then Some (rd ! i) else None)
               (save_field_mappings l src g (id_fs_group r) s1)"
    note fr = after_frame [of "id_fs_group r" "if i < length rd then Some (rd ! i) else None"
        l src g "id_fs_group r" s1]
    have step: "saveGroupsInDb_loop c l src rd (g # gs) i res s
          = saveGroupsInDb_loop c l src rd gs (Suc i) (res @ [r]) ?s3"
      by (subst loop_Cons [OF True]) (simp add: u(1) del: saveGroupsInDb_loop.simps)
    from Cons.IH [of "Suc i" "res @ [r]" ?s3] fr u(2,3) show ?thesis
      unfolding step by simp
  qed
qed

lemma saveGroupsInDb_frame:
  "saveGroupsInDb c l gs src rd s = (x, s1) \<Longrightarrow> events s1 = events s \<and> webhooks s1 = webhooks s"
  using saveGroupsInDb_loop_frame [of c l src rd gs 0 "[]" s]
  by (simp add: saveGroupsInDb_def)

lemma saveGroupsInDb_ok:
  "\<forall>g\<in>set gs. truthy_str (ug_remote_id g) \<Longrightarrow>
   \<exists>rows s1. saveGroupsInDb c l gs src rd s = (Inr rows, s1)"
  using save_loop_ok [of gs c l src rd 0 "[]" s]
  unfolding saveGroupsInDb_def by blast


section \<open>Properties of the attachment save\<close>

lemma attachment_key_baseData [simp]:
  "attachment_key (baseData a cand now r) = attachment_key r"
  by (simp add: attachment_key_def baseData_def)

lemma updateOrCreateAttachment_ok:
  "\<exists>res s1. updateOrCreateAttachment new_pk c cand a oid s = (Inr res, s1)
     \<and> set (map attachment_key (ats_candidate_attachments s1))
         = insert (Some oid, c) (set (map attachment_key (ats_candidate_attachments s)))"
proof (cases "find (\<lambda>r. at_remote_id r = Some oid \<and> at_id_connection r = c)
                (ats_candidate_attachments s)")
  case None
  then show ?thesis
    by (simp add: updateOrCreateAttachment_def new_Date_def uuidv4_def Let_def
          attachment_key_def baseData_def)
next
  case (Some e)
  then have e: "e \<in> set (ats_candidate_attachments s)" "at_remote_id e = Some oid"
      "at_id_connection e = c"
    by (auto dest: find_member)
  let ?f = "baseData a cand (date_stream s (date_next s))"
  let ?T = "ats_candidate_attachments s"
  from prisma_update_member [OF e(1), of id_ats_candidate_attachment ?f]
  obtain res where res:
    "prisma_update (\<lambda>y. id_ats_candidate_attachment y = id_ats_candidate_attachment e) ?f ?T
      = Inr (res, update_first (\<lambda>y. id_ats_candidate_attachment y = id_ats_candidate_attachment e)
                    ?f ?T)" ..
  have keys: "map attachment_key
        (update_first (\<lambda>y. id_ats_candidate_attachment y = id_ats_candidate_attachment e) ?f ?T)
      = map attachment_key ?T"
    by (rule update_first_map) simp
  from arg_cong [OF keys, of set]
  have keys': "attachment_key `
        set (update_first (\<lambda>y. id_ats_candidate_attachment y = id_ats_candidate_attachment e) ?f ?T)
      = attachment_key ` set ?T" by simp
  have "(Some oid, c) \<in> attachment_key ` set ?T"
    using e by (auto simp: attachment_key_def intro!: image_eqI [of _ _ e])
  then have ins: "insert (Some oid, c) (attachment_key ` set ?T) = attachment_key ` set ?T"
    by (rule insert_absorb)
  show ?thesis
    using Some res keys' ins
    by (simp add: updateOrCreateAttachment_def new_Date_def)
qed

lemma saveToDb_loop_Cons:
  assumes "truthy_str (ua_remote_id a)"
  shows "saveToDb_loop new_pk pfm prd c l src rd cand (a # as) i res s =
     (case updateOrCreateAttachment new_pk c cand a (the (ua_remote_id a)) s of
        (Inl e, s1) \<Rightarrow> (Inl e, s1)
      | (Inr r, s1) \<Rightarrow>
          saveToDb_loop new_pk pfm prd c l src rd cand as (Suc i) (res @ [r])
            (prd (id_ats_attachment r) (if i < length rd then Some (rd ! i) else None)
               (pfm (ua_field_mappings a) (id_ats_attachment r) src l s1)))"
  using truthy_str_Some [OF assms] assms
  by (simp add: Let_def split: prod.split sum.split)

lemma saveToDb_loop_ok:
  assumes "\<forall>a\<in>set as. truthy_str (ua_remote_id a)"
  shows "\<exists>rows s'. saveToDb_loop new_pk pfm prd c l src rd cand as i res s = (Inr rows, s')
     \<and> length rows = length res + length as
     \<and> (keeps_attachments pfm prd \<longrightarrow>
          set (map attachment_key (ats_candidate_attachments s'))
          = unified_attachment_key c ` set as \<union> set (map attachment_key (ats_candidate_attachments s)))"
  using assms
proof (induction as arbitrary: s i res)
  case Nil
  then show ?case by simp
next
  case (Cons a as)
  from Cons.prems have tr: "truthy_str (ua_remote_id a)"
    and rest: "\<forall>a\<in>set as. truthy_str (ua_remote_id a)" by simp_all
  from tr have oid: "ua_remote_id a = Some (the (ua_remote_id a))"
    by (auto simp: truthy_str_def split: option.splits)
  from updateOrCreateAttachment_ok [of new_pk c cand a "the (ua_remote_id a)" s]
  obtain r s1 where u: "updateOrCreateAttachment new_pk c cand a (the (ua_remote_id a)) s = (Inr r, s1)"
      "set (map attachment_key (ats_candidate_attachments s1))
         = insert (Some (the (ua_remote_id a)), c) (set (map attachment_key (ats_candidate_attachments s)))"
    by blast
  let ?s3 = "prd (id_ats_attachment r) (if i < length rd then Some (rd ! i) else None)
               (pfm (ua_field_mappings a) (id_ats_attachment r) src l s1)"
  have step: "saveToDb_loop new_pk pfm prd c l src rd cand (a # as) i res s
          = saveToDb_loop new_pk pfm prd c l src rd cand as (Suc i) (res @ [r]) ?s3"
    by (subst saveToDb_loop_Cons [OF tr]) (simp add: u(1) del: saveToDb_loop.simps)
  from Cons.IH [OF rest, of "Suc i" "res @ [r]" ?s3]
  obtain rows s' where ih:
      "saveToDb_loop new_pk pfm prd c l src rd cand as (Suc i) (res @ [r]) ?s3 = (Inr rows, s')"
      "length rows = length (res @ [r]) + length as"
      "keeps_attachments pfm prd \<longrightarrow>
          set (map attachment_key (ats_candidate_attachments s'))
          = unified_attachment_key c ` set as \<union> set (map attachment_key (ats_candidate_attachments ?s3))"
    by blast
  have k: "keeps_attachments pfm prd \<longrightarrow>
          set (map attachment_key (ats_candidate_attachments s'))
          = unified_attachment_key c ` set (a # as)
            \<union> set (map attachment_key (ats_candidate_attachments s))"
  proof
    assume keep: "keeps_attachments pfm prd"
    then have "ats_candidate_attachments ?s3 = ats_candidate_attachments s1"
      by (simp add: keeps_attachments_def)
    with ih(3) keep u(2) oid show "set (map attachment_key (ats_candidate_attachments s'))
          = unified_attachment_key c ` set (a # as)
            \<union> set (map attachment_key (ats_candidate_attachments s))"
      by (auto simp: unified_attachment_key_def)
  qed
  with ih(2) show ?case
    unfolding step ih(1) by simp
qed

lemma saveToDb_loop_append:
  assumes "saveToDb_loop new_pk pfm prd c l src rd cand pre i res s = (Inr rows, s1)"
  shows "saveToDb_loop new_pk pfm prd c l src rd cand (pre @ rest) i res s
         = saveToDb_loop new_pk pfm prd c l src rd cand rest (i + length pre) rows s1"
  using assms
proof (induction pre arbitrary: i res s)
  case Nil
  then show ?case by simp
next
  case (Cons a pre)
  show ?case
  proof (cases "truthy_str (ua_remote_id a)")
    case False
    with Cons.prems show ?thesis
      by (auto simp: truthy_str_def split: option.splits)
  next
    case True
    show ?thesis
    proof (cases "updateOrCreateAttachment new_pk c cand a (the (ua_remote_id a)) s")
      case (Pair x s0)
      show ?thesis
      proof (cases x)
        case (Inl e)
        with Pair Cons.prems show ?thesis
          by (simp add: saveToDb_loop_Cons [OF True] del: saveToDb_loop.simps)
      next
        case (Inr r)
        let ?s3 = "prd (id_ats_attachment r) (if i < length rd then Some (rd ! i) else None)
               (pfm (ua_field_mappings a) (id_ats_attachment r) src l s0)"
        from Cons.prems Pair Inr
        have "saveToDb_loop new_pk pfm prd c l src rd cand pre (Suc i) (res @ [r]) ?s3 = (Inr rows, s1)"
          by (simp add: saveToDb_loop_Cons [OF True] del: saveToDb_loop.simps)
        from Cons.IH [OF this] Pair Inr show ?thesis
          by (simp add: saveToDb_loop_Cons [OF True] del: saveToDb_loop.simps)
      qed
    qed
  qed
qed

lemma saveToDb_loop_bad:
  "\<not> truthy_str (ua_remote_id a) \<Longrightarrow>
   saveToDb_loop new_pk pfm prd c l src rd cand (a # post) i res s = (Inl ReferenceError, s)"
  by (auto simp: truthy_str_def split: option.splits)

lemma save_attachments_not_atomic:
  assumes "\<forall>x\<in>set pre. truthy_str (ua_remote_id x)" "\<not> truthy_str (ua_remote_id a)"
  shows "\<exists>rows s1. saveToDb new_pk pfm prd c l pre src rd cand s = (Inr rows, s1)
           \<and> length rows = length pre
           \<and> saveToDb new_pk pfm prd c l (pre @ a # post) src rd cand s = (Inl ReferenceError, s1)
           \<and> (keeps_attachments pfm prd \<longrightarrow>
                (\<forall>x\<in>set pre. \<exists>r\<in>set (ats_candidate_attachments s1).
                    attachment_key r = unified_attachment_key c x))"
proof -
  from saveToDb_loop_ok [OF assms(1), of new_pk pfm prd c l src rd cand 0 "[]" s]
  obtain rows s1 where r: "saveToDb_loop new_pk pfm prd c l src rd cand pre 0 [] s = (Inr rows, s1)"
      "length rows = length pre"
      "keeps_attachments pfm prd \<longrightarrow>
         set (map attachment_key (ats_candidate_attachments s1))
         = unified_attachment_key c ` set pre \<union> set (map attachment_key (ats_candidate_attachments s))"
    by auto
  have "saveToDb_loop new_pk pfm prd c l src rd cand (pre @ a # post) 0 [] s = (Inl ReferenceError, s1)"
    unfolding saveToDb_loop_append [OF r(1)] by (rule saveToDb_loop_bad [OF assms(2)])
  moreover have "keeps_attachments pfm prd \<longrightarrow>
      (\<forall>x\<in>set pre. \<exists>r\<in>set (ats_candidate_attachments s1).
          attachment_key r = unified_attachment_key c x)"
  proof (intro impI ballI)
    fix x assume "keeps_attachments pfm prd" "x \<in> set pre"
    with r(3) have "unified_attachment_key c x \<in> set (map attachment_key (ats_candidate_attachments s1))"
      by simp
    then show "\<exists>r\<in>set (ats_candidate_attachments s1). attachment_key r = unified_attachment_key c x"
      by auto
  qed
  ultimately show ?thesis
    using r(1,2) unfolding saveToDb_def by simp
qed

lemma baseData_fields [simp]:
  "id_ats_candidate_attachment (baseData a cand now r) = id_ats_candidate_attachment r"
  "at_remote_id (baseData a cand now r) = at_remote_id r"
  "at_id_connection (baseData a cand now r) = at_id_connection r"
  by (simp_all add: baseData_def)

lemma attachment_unstamped_fields [simp]:
  "id_ats_candidate_attachment (attachment_unstamped r) = id_ats_candidate_attachment r"
  "attachment_key (attachment_unstamped r) = attachment_key r"
  by (simp_all add: attachment_unstamped_def attachment_key_def)

lemma attachment_unstamped_baseData:
  "attachment_unstamped (baseData a cand now r) = baseData a cand 0 (attachment_unstamped r)"
  by (simp add: baseData_def attachment_unstamped_def)

lemma baseData_write: "is_attachment_write (baseData a cand 0)"
  unfolding is_attachment_write_def
  by (rule disjI2, intro exI [of _ "ua_file_url a"] exI [of _ "ua_file_name a"]
        exI [of _ "ua_file_type a"] exI [of _ "ua_remote_created_at a"]
        exI [of _ "ua_remote_modified_at a"] exI [of _ cand], rule ext)
     (simp add: baseData_def)

lemma attachment_write_comp:
  assumes "is_attachment_write f" "is_attachment_write h"
  shows "is_attachment_write (\<lambda>r. f (h r))"
proof (cases "f = (\<lambda>r. r)")
  case True
  with assms(2) show ?thesis by simp
next
  case False
  with assms(1) obtain u n t cr cm cand where
      f: "f = (\<lambda>r. r\<lparr>at_file_url := u, at_file_name := n, at_file_type := t,
            at_remote_created_at := cr, at_remote_modified_at := cm, at_candidate_id := cand,
            at_modified_at := 0\<rparr>)"
    unfolding is_attachment_write_def by blast
  have "(\<lambda>r. f (h r)) = f"
  proof (cases "h = (\<lambda>r. r)")
    case True
    then show ?thesis by simp
  next
    case False
    with assms(2) obtain u' n' t' cr' cm' cand' where
      h: "h = (\<lambda>r. r\<lparr>at_file_url := u', at_file_name := n', at_file_type := t',
            at_remote_created_at := cr', at_remote_modified_at := cm', at_candidate_id := cand',
            at_modified_at := 0\<rparr>)"
      unfolding is_attachment_write_def by blast
    show ?thesis unfolding f h by (rule ext) simp
  qed
  with assms(1) show ?thesis by simp
qed

lemma attachment_write_idem:
  assumes "is_attachment_write f"
  shows "f (f r) = f r"
  using assms unfolding is_attachment_write_def by (elim disjE exE) simp_all

lemma attachment_upsert_fold_idem:
  "upsert_fold attachment_key kg (\<lambda>a. baseData a cand 0) as
     (upsert_fold attachment_key kg (\<lambda>a. baseData a cand 0) as X)
   = upsert_fold attachment_key kg (\<lambda>a. baseData a cand 0) as X"
proof (rule upsert_fold_idem [where C = is_attachment_write])
  show "is_attachment_write (baseData a cand 0)" for a by (rule baseData_write)
  show "is_attachment_write (\<lambda>r. r)" by (simp add: is_attachment_write_def)
  show "is_attachment_write (\<lambda>r. f (h r))" if "is_attachment_write f" "is_attachment_write h" for f h
    using that by (rule attachment_write_comp)
  show "f (f r) = f r" if "is_attachment_write f" for f r
    using that by (rule attachment_write_idem)
  show "attachment_key (baseData a cand 0 r) = attachment_key r" for a r by simp
qed

lemma updateOrCreateAttachment_present:
  assumes "distinct (map id_ats_candidate_attachment (ats_candidate_attachments s))"
    and "find (\<lambda>r. at_remote_id r = Some oid \<and> at_id_connection r = c)
           (ats_candidate_attachments s) = Some e"
  shows "updateOrCreateAttachment new_pk c cand a oid s =
     (Inr (baseData a cand (date_stream s (date_next s)) e),
      s\<lparr>date_next := Suc (date_next s),
        ats_candidate_attachments :=
          update_first (\<lambda>r. at_remote_id r = Some oid \<and> at_id_connection r = c)
            (baseData a cand (date_stream s (date_next s))) (ats_candidate_attachments s)\<rparr>)"
  using assms(2)
    prisma_update_found [OF assms, of "baseData a cand (date_stream s (date_next s))"]
  by (simp add: updateOrCreateAttachment_def new_Date_def)

lemma updateOrCreateAttachment_absent:
  assumes "find (\<lambda>r. at_remote_id r = Some oid \<and> at_id_connection r = c)
           (ats_candidate_attachments s) = None"
  shows "updateOrCreateAttachment new_pk c cand a oid s =
     (Inr (baseData a cand (date_stream s (date_next s))
            \<lparr>id_ats_candidate_attachment = new_pk (ats_candidate_attachments s),
             id_ats_attachment = Some (uuid_stream s (uuid_next s)),
             at_remote_id = Some oid, at_id_connection = c,
             at_file_url = None, at_file_name = None, at_file_type = None,
             at_remote_created_at = None, at_remote_modified_at = None,
             at_candidate_id = None, at_created_at = date_stream s (Suc (date_next s)),
             at_modified_at = date_stream s (date_next s)\<rparr>),
      s\<lparr>date_next := Suc (Suc (date_next s)), uuid_next := Suc (uuid_next s),
        ats_candidate_attachments := ats_candidate_attachments s @
          [baseData a cand (date_stream s (date_next s))
            \<lparr>id_ats_candidate_attachment = new_pk (ats_candidate_attachments s),
             id_ats_attachment = Some (uuid_stream s (uuid_next s)),
             at_remote_id = Some oid, at_id_connection = c,
             at_file_url = None, at_file_name = None, at_file_type = None,
             at_remote_created_at = None, at_remote_modified_at = None,
             at_candidate_id = None, at_created_at = date_stream s (Suc (date_next s)),
             at_modified_at = date_stream s (date_next s)\<rparr>]\<rparr>)"
  using assms by (simp add: updateOrCreateAttachment_def new_Date_def uuidv4_def Let_def)

lemma attachment_key_pred:
  "ua_remote_id a = Some oid \<Longrightarrow>
   (at_remote_id r = Some oid \<and> at_id_connection r = c)
   \<longleftrightarrow> attachment_key r = unified_attachment_key c a"
  by (auto simp: attachment_key_def unified_attachment_key_def)

lemma saveToDb_loop_sim:
  assumes "attachments_wf s" "fresh_pk new_pk" "keeps_attachments pfm prd"
    and "\<forall>a\<in>set as. truthy_str (ua_remote_id a)"
  shows "\<exists>rows s' B. saveToDb_loop new_pk pfm prd c l src rd cand as i res s = (Inr rows, s')
     \<and> attachments_wf s' \<and> length rows = length res + length as
     \<and> map attachment_unstamped (ats_candidate_attachments s')
         = upsert_fold attachment_key (unified_attachment_key c) (\<lambda>a. baseData a cand 0) as
             (map attachment_unstamped (ats_candidate_attachments s) @ B)
     \<and> distinct (map attachment_key B)
     \<and> set (map attachment_key B) \<inter> set (map attachment_key (ats_candidate_attachments s)) = {}
     \<and> set (map attachment_key B) \<subseteq> unified_attachment_key c ` set as
     \<and> unified_attachment_key c ` set as
         \<subseteq> set (map attachment_key (ats_candidate_attachments s)) \<union> set (map attachment_key B)"
  using assms(1,4)
proof (induction as arbitrary: s i res)
  case Nil
  show ?case
    using Nil.prems by (auto simp: upsert_fold_def intro!: exI [of _ "[]"])
next
  case (Cons a as)
  note pk = assms(2) and keep = assms(3)
  let ?oid = "the (ua_remote_id a)"
  let ?P = "\<lambda>r. at_remote_id r = Some ?oid \<and> at_id_connection r = c"
  let ?k = "unified_attachment_key c a"
  let ?T = "ats_candidate_attachments s"
  let ?patch = "\<lambda>a. baseData a cand 0"
  from Cons.prems have tr: "truthy_str (ua_remote_id a)"
    and rest: "\<forall>a\<in>set as. truthy_str (ua_remote_id a)" by simp_all
  from tr have oid: "ua_remote_id a = Some ?oid"
    by (auto simp: truthy_str_def split: option.splits)
  from Cons.prems have wf: "attachments_wf s" by simp
  then have dist: "distinct (map id_ats_candidate_attachment ?T)" by (simp add: attachments_wf_def)
  have Pk: "?P r \<longleftrightarrow> attachment_key r = ?k" for r by (rule attachment_key_pred [OF oid])
  have kept: "ats_candidate_attachments (prd x y (pfm u v w z s0)) = ats_candidate_attachments s0"
    for x y u v w z s0
    using keep by (simp add: keeps_attachments_def)
  show ?case
  proof (cases "find ?P ?T")
    case (Some e)
    let ?f = "baseData a cand (date_stream s (date_next s))"
    let ?s1 = "s\<lparr>date_next := Suc (date_next s), ats_candidate_attachments := update_first ?P ?f ?T\<rparr>"
    let ?s3 = "prd (id_ats_attachment (?f e)) (if i < length rd then Some (rd ! i) else None)
               (pfm (ua_field_mappings a) (id_ats_attachment (?f e)) src l ?s1)"
    have step: "saveToDb_loop new_pk pfm prd c l src rd cand (a # as) i res s
          = saveToDb_loop new_pk pfm prd c l src rd cand as (Suc i) (res @ [?f e]) ?s3"
      by (subst saveToDb_loop_Cons [OF tr])
         (simp add: updateOrCreateAttachment_present [OF dist Some] del: saveToDb_loop.simps)
    have T3: "ats_candidate_attachments ?s3 = update_first ?P ?f ?T" by (simp add: kept)
    have ids: "map id_ats_candidate_attachment (update_first ?P ?f ?T)
               = map id_ats_candidate_attachment ?T"
      by (rule update_first_map) simp
    have keys: "map attachment_key (update_first ?P ?f ?T) = map attachment_key ?T"
      by (rule update_first_map) simp
    have wf3: "attachments_wf ?s3"
      using dist unfolding attachments_wf_def T3 ids .
    from Cons.IH [OF wf3 rest, of "Suc i" "res @ [?f e]"]
    obtain rows s' B where ih:
      "saveToDb_loop new_pk pfm prd c l src rd cand as (Suc i) (res @ [?f e]) ?s3 = (Inr rows, s')"
      "attachments_wf s'" "length rows = length (res @ [?f e]) + length as"
      "map attachment_unstamped (ats_candidate_attachments s')
         = upsert_fold attachment_key (unified_attachment_key c) ?patch as
             (map attachment_unstamped (ats_candidate_attachments ?s3) @ B)"
      "distinct (map attachment_key B)"
      "set (map attachment_key B) \<inter> set (map attachment_key (ats_candidate_attachments ?s3)) = {}"
      "set (map attachment_key B) \<subseteq> unified_attachment_key c ` set as"
      "unified_attachment_key c ` set as
         \<subseteq> set (map attachment_key (ats_candidate_attachments ?s3)) \<union> set (map attachment_key B)"
      by blast
    have un: "map attachment_unstamped (update_first ?P ?f ?T)
          = update_first (\<lambda>r. attachment_key r = ?k) (?patch a) (map attachment_unstamped ?T)"
    proof (rule map_update_first)
      show "(attachment_key (attachment_unstamped r) = ?k) = ?P r" for r by (simp add: Pk)
      show "attachment_unstamped (?f r) = ?patch a (attachment_unstamped r)" for r
        by (rule attachment_unstamped_baseData)
    qed
    from Some have "e \<in> set ?T" "?P e" by (auto dest: find_member)
    then have pres: "\<exists>x\<in>set (map attachment_unstamped ?T). attachment_key x = ?k"
      by (auto simp: Pk intro!: bexI [of _ e])
    have app: "update_first (\<lambda>r. attachment_key r = ?k) (?patch a) (map attachment_unstamped ?T) @ B
          = update_first (\<lambda>r. attachment_key r = ?k) (?patch a) (map attachment_unstamped ?T @ B)"
      by (rule update_first_append [symmetric]) (rule pres)
    have E: "map attachment_unstamped (ats_candidate_attachments s')
         = upsert_fold attachment_key (unified_attachment_key c) ?patch (a # as)
             (map attachment_unstamped ?T @ B)"
      by (simp only: ih(4) T3 un app upsert_fold_Cons)
    have kin: "?k \<in> set (map attachment_key ?T)"
      using \<open>e \<in> set ?T\<close> \<open>?P e\<close> by (auto simp: Pk intro!: image_eqI [of _ _ e])
    have c1: "set (map attachment_key B) \<inter> set (map attachment_key ?T) = {}"
      using ih(6) unfolding T3 keys .
    have c2: "set (map attachment_key B) \<subseteq> unified_attachment_key c ` set (a # as)"
      using ih(7) by auto
    have c3: "unified_attachment_key c ` set (a # as)
          \<subseteq> set (map attachment_key ?T) \<union> set (map attachment_key B)"
      using ih(8) kin unfolding T3 keys by auto
    have len: "length rows = length res + length (a # as)" using ih(3) by simp
    show ?thesis
      unfolding step ih(1)
      using ih(2) len E ih(5) c1 c2 c3
      by (intro exI [of _ rows] exI [of _ s'] exI [of _ B] conjI) simp_all
  next
    case None
    let ?row = "\<lambda>m. \<lparr>id_ats_candidate_attachment = new_pk ?T,
             id_ats_attachment = Some (uuid_stream s (uuid_next s)),
             at_remote_id = Some ?oid, at_id_connection = c,
             at_file_url = None, at_file_name = None, at_file_type = None,
             at_remote_created_at = None, at_remote_modified_at = None,
             at_candidate_id = None, at_created_at = date_stream s (Suc (date_next s)),
             at_modified_at = m\<rparr>"
    let ?new = "baseData a cand (date_stream s (date_next s)) (?row (date_stream s (date_next s)))"
    let ?b = "?row 0"
    let ?s1 = "s\<lparr>date_next := Suc (Suc (date_next s)), uuid_next := Suc (uuid_next s),
        ats_candidate_attachments := ?T @ [?new]\<rparr>"
    let ?s3 = "prd (id_ats_attachment ?new) (if i < length rd then Some (rd ! i) else None)
               (pfm (ua_field_mappings a) (id_ats_attachment ?new) src l ?s1)"
    have step: "saveToDb_loop new_pk pfm prd c l src rd cand (a # as) i res s
          = saveToDb_loop new_pk pfm prd c l src rd cand as (Suc i) (res @ [?new]) ?s3"
      by (subst saveToDb_loop_Cons [OF tr])
         (simp add: updateOrCreateAttachment_absent [OF None] del: saveToDb_loop.simps)
    have T3: "ats_candidate_attachments ?s3 = ?T @ [?new]" by (simp add: kept)
    have idnew: "id_ats_candidate_attachment ?new = new_pk ?T" by simp
    have knew: "attachment_key ?new = ?k"
      by (simp add: attachment_key_def unified_attachment_key_def oid [symmetric])
    have kb: "attachment_key ?b = ?k"
      by (simp add: attachment_key_def unified_attachment_key_def oid [symmetric])
    have unnew: "attachment_unstamped ?new = ?patch a ?b"
      by (simp add: attachment_unstamped_def baseData_def)
    have fresh: "new_pk ?T \<notin> set (map id_ats_candidate_attachment ?T)"
      using pk by (simp add: fresh_pk_def)
    have wf3: "attachments_wf ?s3"
      unfolding attachments_wf_def T3 using dist fresh by (simp add: idnew)
    from Cons.IH [OF wf3 rest, of "Suc i" "res @ [?new]"]
    obtain rows s' B where ih:
      "saveToDb_loop new_pk pfm prd c l src rd cand as (Suc i) (res @ [?new]) ?s3 = (Inr rows, s')"
      "attachments_wf s'" "length rows = length (res @ [?new]) + length as"
      "map attachment_unstamped (ats_candidate_attachments s')
         = upsert_fold attachment_key (unified_attachment_key c) ?patch as
             (map attachment_unstamped (ats_candidate_attachments ?s3) @ B)"
      "distinct (map attachment_key B)"
      "set (map attachment_key B) \<inter> set (map attachment_key (ats_candidate_attachments ?s3)) = {}"
      "set (map attachment_key B) \<subseteq> unified_attachment_key c ` set as"
      "unified_attachment_key c ` set as
         \<subseteq> set (map attachment_key (ats_candidate_attachments ?s3)) \<union> set (map attachment_key B)"
      by blast
    from None have abs: "\<forall>x\<in>set (map attachment_unstamped ?T). \<not> attachment_key x = ?k"
      by (auto simp: find_None_iff Pk)
    have app: "map attachment_unstamped (?T @ [?new]) @ B
          = update_first (\<lambda>r. attachment_key r = ?k) (?patch a)
              (map attachment_unstamped ?T @ (?b # B))"
      using kb by (simp add: update_first_append_absent [OF abs] unnew)
    have E: "map attachment_unstamped (ats_candidate_attachments s')
         = upsert_fold attachment_key (unified_attachment_key c) ?patch (a # as)
             (map attachment_unstamped ?T @ (?b # B))"
      by (simp only: ih(4) T3 app upsert_fold_Cons)
    from None have kout: "?k \<notin> set (map attachment_key ?T)"
      by (auto simp: find_None_iff Pk)
    from ih(6) have kB: "?k \<notin> set (map attachment_key B)"
      unfolding T3 using knew by auto
    have c0: "distinct (map attachment_key (?b # B))" using ih(5) kB kb by simp
    have c1: "set (map attachment_key (?b # B)) \<inter> set (map attachment_key ?T) = {}"
      using ih(6) kout kb unfolding T3 by auto
    have c2: "set (map attachment_key (?b # B)) \<subseteq> unified_attachment_key c ` set (a # as)"
      using ih(7) kb by auto
    have c3: "unified_attachment_key c ` set (a # as)
          \<subseteq> set (map attachment_key ?T) \<union> set (map attachment_key (?b # B))"
      using ih(8) kb knew unfolding T3 by auto
    have len: "length rows = length res + length (a # as)" using ih(3) by simp
    show ?thesis
      unfolding step ih(1)
      using ih(2) len E c0 c1 c2 c3
      by (intro exI [of _ rows] exI [of _ s'] exI [of _ "?b # B"] conjI) simp_all
  qed
qed

lemma save_attachments_simE:
  assumes "attachments_wf s" "fresh_pk new_pk" "keeps_attachments pfm prd"
    and "\<forall>a\<in>set as. truthy_str (ua_remote_id a)"
  obtains rows s' B where
    "saveToDb new_pk pfm prd c l as src rd cand s = (Inr rows, s')"
    "attachments_wf s'" "length rows = length as"
    "map attachment_unstamped (ats_candidate_attachments s')
         = upsert_fold attachment_key (unified_attachment_key c) (\<lambda>a. baseData a cand 0) as
             (map attachment_unstamped (ats_candidate_attachments s) @ B)"
    "distinct (map attachment_key B)"
    "set (map attachment_key B) \<inter> set (map attachment_key (ats_candidate_attachments s)) = {}"
    "set (map attachment_key B) \<subseteq> unified_attachment_key c ` set as"
    "unified_attachment_key c ` set as
       \<subseteq> set (map attachment_key (ats_candidate_attachments s)) \<union> set (map attachment_key B)"
proof -
  from saveToDb_loop_sim [OF assms, of c l src rd cand 0 "[]"]
  obtain rows s' B where
    "saveToDb_loop new_pk pfm prd c l src rd cand as 0 [] s = (Inr rows, s')"
    "attachments_wf s'" "length rows = length ([] :: ats_candidate_attachment list) + length as"
    "map attachment_unstamped (ats_candidate_attachments s')
         = upsert_fold attachment_key (unified_attachment_key c) (\<lambda>a. baseData a cand 0) as
             (map attachment_unstamped (ats_candidate_attachments s) @ B)"
    "distinct (map attachment_key B)"
    "set (map attachment_key B) \<inter> set (map attachment_key (ats_candidate_attachments s)) = {}"
    "set (map attachment_key B) \<subseteq> unified_attachment_key c ` set as"
    "unified_attachment_key c ` set as
       \<subseteq> set (map attachment_key (ats_candidate_attachments s)) \<union> set (map attachment_key B)"
    by (elim exE conjE)
  then show ?thesis
    by (intro that [of rows s' B]) (simp_all add: saveToDb_def)
qed

lemma save_attachments_upserted:
  assumes "attachments_wf s" "fresh_pk new_pk" "keeps_attachments pfm prd"
    and "\<forall>a\<in>set as. truthy_str (ua_remote_id a)"
  shows "(\<exists>rows. fst (saveToDb new_pk pfm prd c l as src rd cand s) = Inr rows
            \<and> length rows = length as)
       \<and> upserted attachment_key id_ats_candidate_attachment (map (unified_attachment_key c) as)
           (ats_candidate_attachments s)
           (ats_candidate_attachments (snd (saveToDb new_pk pfm prd c l as src rd cand s)))"
proof -
  obtain rows s' B where r:
    "saveToDb new_pk pfm prd c l as src rd cand s = (Inr rows, s')"
    "attachments_wf s'" "length rows = length as"
    "map attachment_unstamped (ats_candidate_attachments s')
         = upsert_fold attachment_key (unified_attachment_key c) (\<lambda>a. baseData a cand 0) as
             (map attachment_unstamped (ats_candidate_attachments s) @ B)"
    "distinct (map attachment_key B)"
    "set (map attachment_key B) \<inter> set (map attachment_key (ats_candidate_attachments s)) = {}"
    "set (map attachment_key B) \<subseteq> unified_attachment_key c ` set as"
    "unified_attachment_key c ` set as
       \<subseteq> set (map attachment_key (ats_candidate_attachments s)) \<union> set (map attachment_key B)"
    by (rule save_attachments_simE [OF assms])
  have "upserted attachment_key id_ats_candidate_attachment (map (unified_attachment_key c) as)
           (ats_candidate_attachments s) (ats_candidate_attachments s')"
  proof (rule upserted_from_sim [where un = attachment_unstamped
        and patch = "\<lambda>a. baseData a cand 0" and kg = "unified_attachment_key c" and B = B])
    show "map attachment_unstamped (ats_candidate_attachments s')
         = upsert_fold attachment_key (unified_attachment_key c) (\<lambda>a. baseData a cand 0) as
             (map attachment_unstamped (ats_candidate_attachments s) @ B)" by (rule r(4))
  qed (use r(5,6,7,8) in simp_all)
  with r(1,3) show ?thesis by simp
qed

lemma save_attachments_idem:
  assumes "attachments_wf s" "fresh_pk new_pk" "keeps_attachments pfm prd"
    and "\<forall>a\<in>set as. truthy_str (ua_remote_id a)"
  shows "map attachment_unstamped
           (ats_candidate_attachments
              (snd (saveToDb new_pk pfm prd c l as src rd' cand
                      (snd (saveToDb new_pk pfm prd c l as src rd cand s)))))
         = map attachment_unstamped
             (ats_candidate_attachments (snd (saveToDb new_pk pfm prd c l as src rd cand s)))"
proof -
  let ?UF = "upsert_fold attachment_key (unified_attachment_key c) (\<lambda>a. baseData a cand 0) as"
  let ?AT = ats_candidate_attachments
  obtain rows s1 B where r:
    "saveToDb new_pk pfm prd c l as src rd cand s = (Inr rows, s1)"
    "attachments_wf s1" "length rows = length as"
    "map attachment_unstamped (?AT s1) = ?UF (map attachment_unstamped (?AT s) @ B)"
    "distinct (map attachment_key B)"
    "set (map attachment_key B) \<inter> set (map attachment_key (?AT s)) = {}"
    "set (map attachment_key B) \<subseteq> unified_attachment_key c ` set as"
    "unified_attachment_key c ` set as \<subseteq> set (map attachment_key (?AT s)) \<union> set (map attachment_key B)"
    by (rule save_attachments_simE [OF assms])
  obtain rows2 s2 B2 where r2:
    "saveToDb new_pk pfm prd c l as src rd' cand s1 = (Inr rows2, s2)"
    "attachments_wf s2" "length rows2 = length as"
    "map attachment_unstamped (?AT s2) = ?UF (map attachment_unstamped (?AT s1) @ B2)"
    "distinct (map attachment_key B2)"
    "set (map attachment_key B2) \<inter> set (map attachment_key (?AT s1)) = {}"
    "set (map attachment_key B2) \<subseteq> unified_attachment_key c ` set as"
    "unified_attachment_key c ` set as \<subseteq> set (map attachment_key (?AT s1)) \<union> set (map attachment_key B2)"
    by (rule save_attachments_simE [OF r(2) assms(2,3,4)])
  have k1: "map attachment_key (?AT s1) = map attachment_key (?AT s) @ map attachment_key B"
  proof -
    have "map attachment_key (?AT s1) = map attachment_key (map attachment_unstamped (?AT s1))"
      by simp
    also have "\<dots> = map attachment_key (map attachment_unstamped (?AT s) @ B)"
      unfolding r(4) by (rule upsert_fold_map) simp
    finally show ?thesis by simp
  qed
  have k2: "set (map attachment_key (?AT s1))
            = set (map attachment_key (?AT s)) \<union> set (map attachment_key B)"
    by (simp only: k1 set_append)
  have "set (map attachment_key B2) \<subseteq> set (map attachment_key (?AT s)) \<union> set (map attachment_key B)"
    using r2(7) r(8) by (rule subset_trans)
  then have "set (map attachment_key B2) \<subseteq> set (map attachment_key (?AT s1))"
    by (simp only: k2)
  then have "set (map attachment_key B2) = {}"
    using r2(6) by (rule subset_disjoint_empty)
  then have B2: "B2 = []" by simp
  have "map attachment_unstamped (?AT s2) = ?UF (?UF (map attachment_unstamped (?AT s) @ B))"
    by (simp only: r2(4) B2 r(4) append_Nil2)
  also have "\<dots> = ?UF (map attachment_unstamped (?AT s) @ B)"
    by (rule attachment_upsert_fold_idem)
  finally have "map attachment_unstamped (?AT s2) = map attachment_unstamped (?AT s1)"
    by (simp only: r(4))
  then show ?thesis by (simp only: r(1) snd_conv r2(1))
qed

lemma save_attachment_single:
  assumes d: "distinct (map id_ats_candidate_attachment (ats_candidate_attachments s))"
    and keep: "keeps_attachments pfm prd" and t: "truthy_str (ua_remote_id a)"
  shows "ats_candidate_attachments (snd (saveToDb new_pk pfm prd c l [a] src rd cand s)) =
     (case find (\<lambda>r. attachment_key r = unified_attachment_key c a) (ats_candidate_attachments s) of
        Some e \<Rightarrow> update_first (\<lambda>r. attachment_key r = unified_attachment_key c a)
                    (baseData a cand (date_stream s (date_next s))) (ats_candidate_attachments s)
      | None \<Rightarrow> ats_candidate_attachments s @
          [baseData a cand (date_stream s (date_next s))
            \<lparr>id_ats_candidate_attachment = new_pk (ats_candidate_attachments s),
             id_ats_attachment = Some (uuid_stream s (uuid_next s)),
             at_remote_id = ua_remote_id a, at_id_connection = c,
             at_file_url = None, at_file_name = None, at_file_type = None,
             at_remote_created_at = None, at_remote_modified_at = None,
             at_candidate_id = None, at_created_at = date_stream s (Suc (date_next s)),
             at_modified_at = date_stream s (date_next s)\<rparr>])"
proof -
  from t obtain oid where oid: "ua_remote_id a = Some oid"
    by (auto simp: truthy_str_def split: option.splits)
  have P: "(\<lambda>r. at_remote_id r = Some oid \<and> at_id_connection r = c)
         = (\<lambda>r. attachment_key r = unified_attachment_key c a)"
    by (rule ext) (rule attachment_key_pred [OF oid])
  have kept: "ats_candidate_attachments (prd x y (pfm u v w z s0)) = ats_candidate_attachments s0"
    for x y u v w z s0
    using keep by (simp add: keeps_attachments_def)
  show ?thesis
  proof (cases "find (\<lambda>r. attachment_key r = unified_attachment_key c a) (ats_candidate_attachments s)")
    case None
    then have f: "find (\<lambda>r. at_remote_id r = Some oid \<and> at_id_connection r = c)
        (ats_candidate_attachments s) = None" by (simp only: P)
    note u = updateOrCreateAttachment_absent [OF f, of new_pk cand a]
    show ?thesis
      unfolding saveToDb_def
      by (subst saveToDb_loop_Cons [OF t]) (simp add: oid u None kept)
  next
    case (Some e)
    then have f: "find (\<lambda>r. at_remote_id r = Some oid \<and> at_id_connection r = c)
        (ats_candidate_attachments s) = Some e" by (simp only: P)
    note u = updateOrCreateAttachment_present [OF d f, of new_pk cand a]
    show ?thesis
      unfolding saveToDb_def
      by (subst saveToDb_loop_Cons [OF t]) (simp add: oid u Some kept P)
  qed
qed


section \<open>The saves as upserts\<close>

text \<open>
  Claim C1, as amended.  Take a table of groups with unique primary keys, identifiers
  still to be drawn that are new, and a list of unified groups that all have a non-empty
  \<open>remote_id\<close>; and likewise a table of attachments with unique primary keys, a database
  that gives a new row a key not in the table, functions of \<open>IngestDataService\<close> that
  leave the table of attachments alone, and a list of unified attachments that all have
  a non-empty \<open>remote_id\<close>.  Then each save returns one row for each element, and the
  table after it is the upsert of the table before it by the keys
  \<open>(remote_id, id_connection)\<close> of the list: the rows that were there keep their place,
  key and identifier, and one row is added for each key of the list that was not there.
  The save of a single element rewrites the first row of its key where it is and adds no
  row when the key is in the table, and adds exactly one row when it is not.  Running
  the same save a second time leaves the same rows as running it once, column by
  column, except for \<open>modified_at\<close>, which every run sets anew.
\<close>

theorem save_upsert:
  assumes gwf: "fs_groups_wf s"
    and gt: "\<forall>g\<in>set groups. truthy_str (ug_remote_id g)"
    and awf: "attachments_wf s"
    and pk: "fresh_pk new_pk"
    and keep: "keeps_attachments processFieldMappings processRemoteData"
    and at: "\<forall>a\<in>set attachments. truthy_str (ua_remote_id a)"
  shows
    "(\<exists>rows. fst (saveGroupsInDb connection_id linkedUserId groups originSource remote_data_arg s)
               = Inr rows \<and> length rows = length groups)
     \<and> upserted group_key id_fs_group (map (unified_group_key connection_id) groups) (fs_groups s)
         (fs_groups (snd (saveGroupsInDb connection_id linkedUserId groups originSource
                            remote_data_arg s)))
     \<and> (\<forall>g\<in>set groups.
           fs_groups (snd (saveGroupsInDb connection_id linkedUserId [g] originSource
                             remote_data_arg s)) =
           (case find (\<lambda>r. group_key r = unified_group_key connection_id g) (fs_groups s) of
              Some e \<Rightarrow>
                update_first (\<lambda>r. group_key r = unified_group_key connection_id g)
                  (\<lambda>r. group_data g (r\<lparr>g_modified_at := date_stream s (date_next s)\<rparr>))
                  (fs_groups s)
            | None \<Rightarrow> fs_groups s @ [group_data g
                \<lparr>id_fs_group = uuid_stream s (uuid_next s), g_name = None, g_users = None,
                 g_remote_was_deleted = None, g_remote_id = ug_remote_id g,
                 g_id_connection = connection_id,
                 g_created_at = date_stream s (date_next s),
                 g_modified_at = date_stream s (Suc (date_next s))\<rparr>]))
     \<and> map group_unstamped
           (fs_groups (snd (saveGroupsInDb connection_id linkedUserId groups originSource
              remote_data_arg
              (snd (saveGroupsInDb connection_id linkedUserId groups originSource
                      remote_data_arg s)))))
         = map group_unstamped
             (fs_groups (snd (saveGroupsInDb connection_id linkedUserId groups originSource
                                remote_data_arg s)))
     \<and> (\<exists>rows. fst (saveToDb new_pk processFieldMappings processRemoteData connection_id
                       linkedUserId attachments originSource remote_data_arg candidate_id s)
               = Inr rows \<and> length rows = length attachments)
     \<and> upserted attachment_key id_ats_candidate_attachment
         (map (unified_attachment_key connection_id) attachments) (ats_candidate_attachments s)
         (ats_candidate_attachments
            (snd (saveToDb new_pk processFieldMappings processRemoteData connection_id
                    linkedUserId attachments originSource remote_data_arg candidate_id s)))
     \<and> (\<forall>a\<in>set attachments.
           ats_candidate_attachments
             (snd (saveToDb new_pk processFieldMappings processRemoteData connection_id
                     linkedUserId [a] originSource remote_data_arg candidate_id s)) =
           (case find (\<lambda>r. attachment_key r = unified_attachment_key connection_id a)
                   (ats_candidate_attachments s) of
              Some e \<Rightarrow>
                update_first (\<lambda>r. attachment_key r = unified_attachment_key connection_id a)
                  (baseData a candidate_id (date_stream s (date_next s)))
                  (ats_candidate_attachments s)
            | None \<Rightarrow> ats_candidate_attachments s @
                [baseData a candidate_id (date_stream s (date_next s))
                  \<lparr>id_ats_candidate_attachment = new_pk (ats_candidate_attachments s),
                   id_ats_attachment = Some (uuid_stream s (uuid_next s)),
                   at_remote_id = ua_remote_id a, at_id_connection = connection_id,
                   at_file_url = None, at_file_name = None, at_file_type = None,
                   at_remote_created_at = None, at_remote_modified_at = None,
                   at_candidate_id = None, at_created_at = date_stream s (Suc (date_next s)),
                   at_modified_at = date_stream s (date_next s)\<rparr>]))
     \<and> map attachment_unstamped
           (ats_candidate_attachments
              (snd (saveToDb new_pk processFieldMappings processRemoteData connection_id
                      linkedUserId attachments originSource remote_data_arg candidate_id
                      (snd (saveToDb new_pk processFieldMappings processRemoteData connection_id
                              linkedUserId attachments originSource remote_data_arg candidate_id
                              s)))))
         = map attachment_unstamped
             (ats_candidate_attachments
                (snd (saveToDb new_pk processFieldMappings processRemoteData connection_id
                        linkedUserId attachments originSource remote_data_arg candidate_id s)))"
proof (intro conjI ballI)
  note gu = save_groups_upserted [OF gwf gt, of connection_id linkedUserId originSource
      remote_data_arg]
  show "\<exists>rows. fst (saveGroupsInDb connection_id linkedUserId groups originSource remote_data_arg s)
               = Inr rows \<and> length rows = length groups"
    by (rule conjunct1 [OF gu])
  show "upserted group_key id_fs_group (map (unified_group_key connection_id) groups) (fs_groups s)
         (fs_groups (snd (saveGroupsInDb connection_id linkedUserId groups originSource
                            remote_data_arg s)))"
    by (rule conjunct2 [OF conjunct2 [OF gu]])
  show "map group_unstamped
           (fs_groups (snd (saveGroupsInDb connection_id linkedUserId groups originSource
              remote_data_arg
              (snd (saveGroupsInDb connection_id linkedUserId groups originSource
                      remote_data_arg s)))))
         = map group_unstamped
             (fs_groups (snd (saveGroupsInDb connection_id linkedUserId groups originSource
                                remote_data_arg s)))"
    by (rule save_groups_idem [OF gwf gt])
  note au = save_attachments_upserted [OF awf pk keep at, of connection_id linkedUserId
      originSource remote_data_arg candidate_id]
  show "\<exists>rows. fst (saveToDb new_pk processFieldMappings processRemoteData connection_id
                       linkedUserId attachments originSource remote_data_arg candidate_id s)
               = Inr rows \<and> length rows = length attachments"
    by (rule conjunct1 [OF au])
  show "upserted attachment_key id_ats_candidate_attachment
         (map (unified_attachment_key connection_id) attachments) (ats_candidate_attachments s)
         (ats_candidate_attachments
            (snd (saveToDb new_pk processFieldMappings processRemoteData connection_id
                    linkedUserId attachments originSource remote_data_arg candidate_id s)))"
    by (rule conjunct2 [OF au])
  show "map attachment_unstamped
           (ats_candidate_attachments
              (snd (saveToDb new_pk processFieldMappings processRemoteData connection_id
                      linkedUserId attachments originSource remote_data_arg candidate_id
                      (snd (saveToDb new_pk processFieldMappings processRemoteData connection_id
                              linkedUserId attachments originSource remote_data_arg candidate_id
                              s)))))
         = map attachment_unstamped
             (ats_candidate_attachments
                (snd (saveToDb new_pk processFieldMappings processRemoteData connection_id
                        linkedUserId attachments originSource remote_data_arg candidate_id s)))"
    by (rule save_attachments_idem [OF awf pk keep at])
next
  fix g assume "g \<in> set groups"
  with gt have t: "truthy_str (ug_remote_id g)" by simp
  from gwf have d: "distinct (map id_fs_group (fs_groups s))" by (simp add: fs_groups_wf_def)
  show "fs_groups (snd (saveGroupsInDb connection_id linkedUserId [g] originSource
                             remote_data_arg s)) =
           (case find (\<lambda>r. group_key r = unified_group_key connection_id g) (fs_groups s) of
              Some e \<Rightarrow>
                update_first (\<lambda>r. group_key r = unified_group_key connection_id g)
                  (\<lambda>r. group_data g (r\<lparr>g_modified_at := date_stream s (date_next s)\<rparr>))
                  (fs_groups s)
            | None \<Rightarrow> fs_groups s @ [group_data g
                \<lparr>id_fs_group = uuid_stream s (uuid_next s), g_name = None, g_users = None,
                 g_remote_was_deleted = None, g_remote_id = ug_remote_id g,
                 g_id_connection = connection_id,
                 g_created_at = date_stream s (date_next s),
                 g_modified_at = date_stream s (Suc (date_next s))\<rparr>])"
    by (rule save_group_single [OF d t])
next
  fix a assume "a \<in> set attachments"
  with at have t: "truthy_str (ua_remote_id a)" by simp
  from awf have d: "distinct (map id_ats_candidate_attachment (ats_candidate_attachments s))"
    by (simp add: attachments_wf_def)
  show "ats_candidate_attachments
             (snd (saveToDb new_pk processFieldMappings processRemoteData connection_id
                     linkedUserId [a] originSource remote_data_arg candidate_id s)) =
           (case find (\<lambda>r. attachment_key r = unified_attachment_key connection_id a)
                   (ats_candidate_attachments s) of
              Some e \<Rightarrow>
                update_first (\<lambda>r. attachment_key r = unified_attachment_key connection_id a)
                  (baseData a candidate_id (date_stream s (date_next s)))
                  (ats_candidate_attachments s)
            | None \<Rightarrow> ats_candidate_attachments s @
                [baseData a candidate_id (date_stream s (date_next s))
                  \<lparr>id_ats_candidate_attachment = new_pk (ats_candidate_attachments s),
                   id_ats_attachment = Some (uuid_stream s (uuid_next s)),
                   at_remote_id = ua_remote_id a, at_id_connection = connection_id,
                   at_file_url = None, at_file_name = None, at_file_type = None,
                   at_remote_created_at = None, at_remote_modified_at = None,
                   at_candidate_id = None, at_created_at = date_stream s (Suc (date_next s)),
                   at_modified_at = date_stream s (date_next s)\<rparr>])"
    by (rule save_attachment_single [OF d keep t])
qed

lemma empty_db_uuid_inj: "inj (uuid_stream empty_db)"
  by (rule injI) (simp add: empty_db_def)

lemma example_new_pk_fresh: "fresh_pk example_new_pk"
  unfolding fresh_pk_def
proof (intro allI notI)
  fix rows assume "example_new_pk rows \<in> id_ats_candidate_attachment ` set rows"
  then obtain r where r: "r \<in> set rows" "id_ats_candidate_attachment r = example_new_pk rows"
    by auto
  from r(1) have "length (id_ats_candidate_attachment r)
      \<le> sum_list (map (\<lambda>r. length (id_ats_candidate_attachment r)) rows)"
    by (induction rows) auto
  with r(2) show False by (simp add: example_new_pk_def)
qed

theorem save_upsert_witness:
  "fs_groups_wf upsert_db
   \<and> list_all (\<lambda>g. truthy_str (ug_remote_id g))
         [example_group (Some ''g1'') ''Admins'', example_group (Some ''g2'') ''Users'',
          example_group (Some ''g2'') ''Staff'']
   \<and> attachments_wf upsert_db \<and> fresh_pk example_new_pk
   \<and> keeps_attachments example_processFieldMappings example_processRemoteData
   \<and> list_all (\<lambda>a. truthy_str (ua_remote_id a))
         [example_attachment (Some ''a1'') ''cv.pdf'', example_attachment (Some ''a2'') ''letter.pdf'']
   \<and> upserted group_key id_fs_group [(Some ''g1'', ''c1''), (Some ''g2'', ''c1''), (Some ''g2'', ''c1'')]
       (fs_groups upsert_db)
       (fs_groups (snd (saveGroupsInDb ''c1'' ''lu1''
          [example_group (Some ''g1'') ''Admins'', example_group (Some ''g2'') ''Users'',
           example_group (Some ''g2'') ''Staff''] ''box'' [] upsert_db)))
   \<and> upserted attachment_key id_ats_candidate_attachment [(Some ''a1'', ''c1''), (Some ''a2'', ''c1'')]
       (ats_candidate_attachments upsert_db)
       (ats_candidate_attachments (snd (saveToDb example_new_pk example_processFieldMappings
          example_processRemoteData ''c1'' ''lu1''
          [example_attachment (Some ''a1'') ''cv.pdf'', example_attachment (Some ''a2'') ''letter.pdf'']
          ''box'' [] None upsert_db)))"
proof -
  let ?gs = "[example_group (Some ''g1'') ''Admins'', example_group (Some ''g2'') ''Users'',
                example_group (Some ''g2'') ''Staff'']"
  let ?as = "[example_attachment (Some ''a1'') ''cv.pdf'',
                example_attachment (Some ''a2'') ''letter.pdf'']"
  have u: "uuid_stream upsert_db = uuid_stream empty_db" "uuid_next upsert_db = 0"
    by (simp_all add: upsert_db_def empty_db_def)
  have h1: "fs_groups_wf upsert_db"
    unfolding fs_groups_wf_def u using empty_db_uuid_inj
    by (simp add: upsert_db_def empty_db_def)
  have h2: "\<forall>g\<in>set ?gs. truthy_str (ug_remote_id g)"
    by (simp add: example_group_def truthy_str_def)
  have h3: "attachments_wf upsert_db"
    by (simp add: attachments_wf_def upsert_db_def empty_db_def)
  note h4 = example_new_pk_fresh
  have h5: "keeps_attachments example_processFieldMappings example_processRemoteData"
    by (simp add: keeps_attachments_def example_processFieldMappings_def
          example_processRemoteData_def)
  have h6: "\<forall>a\<in>set ?as. truthy_str (ua_remote_id a)"
    by (simp add: example_attachment_def truthy_str_def)
  note t = save_upsert [OF h1 h2 h3 h4 h5 h6, where connection_id = "''c1''"
      and linkedUserId = "''lu1''" and originSource = "''box''" and remote_data_arg = "[]"
      and candidate_id = None]
  have kg: "map (unified_group_key ''c1'') ?gs
      = [(Some ''g1'', ''c1''), (Some ''g2'', ''c1''), (Some ''g2'', ''c1'')]"
    by (simp add: unified_group_key_def example_group_def)
  have ka: "map (unified_attachment_key ''c1'') ?as = [(Some ''a1'', ''c1''), (Some ''a2'', ''c1'')]"
    by (simp add: unified_attachment_key_def example_attachment_def)
  note g = conjunct1 [OF conjunct2 [OF t]]
  note a = conjunct1 [OF conjunct2 [OF conjunct2 [OF conjunct2 [OF conjunct2 [OF conjunct2 [OF t]]]]]]
  from g have G: "upserted group_key id_fs_group
       [(Some ''g1'', ''c1''), (Some ''g2'', ''c1''), (Some ''g2'', ''c1'')]
       (fs_groups upsert_db)
       (fs_groups (snd (saveGroupsInDb ''c1'' ''lu1'' ?gs ''box'' [] upsert_db)))"
    unfolding kg .
  from a have A: "upserted attachment_key id_ats_candidate_attachment
       [(Some ''a1'', ''c1''), (Some ''a2'', ''c1'')]
       (ats_candidate_attachments upsert_db)
       (ats_candidate_attachments (snd (saveToDb example_new_pk example_processFieldMappings
          example_processRemoteData ''c1'' ''lu1'' ?as ''box'' [] None upsert_db)))"
    unfolding ka .
  have h2': "list_all (\<lambda>g. truthy_str (ug_remote_id g)) ?gs"
    by (simp add: example_group_def truthy_str_def)
  have h6': "list_all (\<lambda>a. truthy_str (ua_remote_id a)) ?as"
    by (simp add: example_attachment_def truthy_str_def)
  from h1 h2' h3 h4 h5 h6' G A show ?thesis by (intro conjI)
qed

text \<open>
  Claim C1 as stated, that the second run leaves the same set of rows, does not hold of
  the rows as they are: the second run finds the row of the key and updates it, and the
  update sets \<open>modified_at\<close> to the time of that run.
\<close>

theorem save_upsert_counterexample:
  "map g_modified_at
     (fs_groups (snd (saveGroupsInDb ''c1'' ''lu1'' [example_group (Some ''g1'') ''Admins''] ''box'' []
        empty_db))) = [1001]
   \<and> map g_modified_at
     (fs_groups (snd (saveGroupsInDb ''c1'' ''lu1'' [example_group (Some ''g1'') ''Admins''] ''box'' []
        (snd (saveGroupsInDb ''c1'' ''lu1'' [example_group (Some ''g1'') ''Admins''] ''box'' []
                empty_db))))) = [1004]
   \<and> map at_modified_at
       (ats_candidate_attachments (snd (saveToDb example_new_pk example_processFieldMappings
          example_processRemoteData ''c1'' ''lu1'' [example_attachment (Some ''a1'') ''cv.pdf'']
          ''box'' [] None empty_db))) = [1000]
   \<and> map at_modified_at
       (ats_candidate_attachments (snd (saveToDb example_new_pk example_processFieldMappings
          example_processRemoteData ''c1'' ''lu1'' [example_attachment (Some ''a1'') ''cv.pdf'']
          ''box'' [] None
          (snd (saveToDb example_new_pk example_processFieldMappings
             example_processRemoteData ''c1'' ''lu1'' [example_attachment (Some ''a1'') ''cv.pdf'']
             ''box'' [] None empty_db))))) = [1002]"
  by code_simp


section \<open>A save that throws\<close>

text \<open>
  Claim C10.  When the elements before the first one without \<open>remote_id\<close> (null,
  undefined or empty) all have one, \<open>saveGroupsInDb\<close> and \<open>saveToDb\<close> throw a
  \<open>ReferenceError\<close>, and the state they leave is the state after the save of the
  elements before it: that save has returned a row for each of them, and each of their
  keys has a row in the table.  Nothing is rolled back.
\<close>

theorem save_not_atomic:
  assumes "\<forall>x\<in>set groups_before. truthy_str (ug_remote_id x)"
    and "\<not> truthy_str (ug_remote_id grp)"
    and "\<forall>x\<in>set attachments_before. truthy_str (ua_remote_id x)"
    and "\<not> truthy_str (ua_remote_id attachment)"
  shows "(\<exists>rows s1.
            saveGroupsInDb connection_id linkedUserId groups_before originSource remote_data_arg s
              = (Inr rows, s1)
          \<and> length rows = length groups_before
          \<and> saveGroupsInDb connection_id linkedUserId (groups_before @ grp # groups_after)
              originSource remote_data_arg s = (Inl ReferenceError, s1)
          \<and> (\<forall>x\<in>set groups_before. \<exists>r\<in>set (fs_groups s1).
                group_key r = unified_group_key connection_id x))
       \<and> (\<exists>rows s1.
            saveToDb new_pk processFieldMappings processRemoteData connection_id linkedUserId
              attachments_before originSource remote_data_arg candidate_id s = (Inr rows, s1)
          \<and> length rows = length attachments_before
          \<and> saveToDb new_pk processFieldMappings processRemoteData connection_id linkedUserId
              (attachments_before @ attachment # attachments_after) originSource remote_data_arg
              candidate_id s = (Inl ReferenceError, s1)
          \<and> (keeps_attachments processFieldMappings processRemoteData \<longrightarrow>
                (\<forall>x\<in>set attachments_before. \<exists>r\<in>set (ats_candidate_attachments s1).
                    attachment_key r = unified_attachment_key connection_id x)))"
  using save_groups_not_atomic [OF assms(1,2)] save_attachments_not_atomic [OF assms(3,4)]
  by (rule conjI)

theorem save_not_atomic_witness:
  "truthy_str (ug_remote_id (example_group (Some ''g1'') ''Admins''))
   \<and> \<not> truthy_str (ug_remote_id (example_group (Some '''') ''Nobody''))
   \<and> truthy_str (ua_remote_id (example_attachment (Some ''a1'') ''cv.pdf''))
   \<and> \<not> truthy_str (ua_remote_id (example_attachment None ''letter.pdf''))
   \<and> keeps_attachments example_processFieldMappings example_processRemoteData
   \<and> fs_groups empty_db = [] \<and> ats_candidate_attachments empty_db = []
   \<and> (\<exists>s1. saveGroupsInDb ''c1'' ''lu1''
              ([example_group (Some ''g1'') ''Admins''] @ example_group (Some '''') ''Nobody''
                 # [example_group (Some ''g2'') ''Users''])
              ''box'' [] empty_db = (Inl ReferenceError, s1)
          \<and> (\<exists>r\<in>set (fs_groups s1). group_key r = (Some ''g1'', ''c1'')))
   \<and> (\<exists>s1. saveToDb example_new_pk example_processFieldMappings example_processRemoteData
              ''c1'' ''lu1''
              ([example_attachment (Some ''a1'') ''cv.pdf''] @ example_attachment None ''letter.pdf''
                 # [])
              ''box'' [] None empty_db = (Inl ReferenceError, s1)
          \<and> (\<exists>r\<in>set (ats_candidate_attachments s1). attachment_key r = (Some ''a1'', ''c1'')))"
proof -
  have h1: "\<forall>x\<in>set [example_group (Some ''g1'') ''Admins'']. truthy_str (ug_remote_id x)"
    by (simp add: example_group_def truthy_str_def)
  have h2: "\<not> truthy_str (ug_remote_id (example_group (Some '''') ''Nobody''))"
    by (simp add: example_group_def truthy_str_def)
  have h3: "\<forall>x\<in>set [example_attachment (Some ''a1'') ''cv.pdf'']. truthy_str (ua_remote_id x)"
    by (simp add: example_attachment_def truthy_str_def)
  have h4: "\<not> truthy_str (ua_remote_id (example_attachment None ''letter.pdf''))"
    by (simp add: example_attachment_def truthy_str_def)
  have k: "keeps_attachments example_processFieldMappings example_processRemoteData"
    by (simp add: keeps_attachments_def example_processFieldMappings_def
          example_processRemoteData_def)
  have e: "fs_groups empty_db = []" "ats_candidate_attachments empty_db = []"
    by (simp_all add: empty_db_def)
  note t = save_not_atomic [OF h1 h2 h3 h4, where connection_id = "''c1''"
      and linkedUserId = "''lu1''" and originSource = "''box''" and remote_data_arg = "[]"
      and s = empty_db and groups_after = "[example_group (Some ''g2'') ''Users'']"
      and new_pk = example_new_pk and processFieldMappings = example_processFieldMappings
      and processRemoteData = example_processRemoteData and attachments_after = "[]"
      and candidate_id = None]
  from conjunct1 [OF t] obtain s1 where
    g1: "saveGroupsInDb ''c1'' ''lu1''
              ([example_group (Some ''g1'') ''Admins''] @ example_group (Some '''') ''Nobody''
                 # [example_group (Some ''g2'') ''Users''])
              ''box'' [] empty_db = (Inl ReferenceError, s1)"
    and g2: "\<forall>x\<in>set [example_group (Some ''g1'') ''Admins'']. \<exists>r\<in>set (fs_groups s1).
                group_key r = unified_group_key ''c1'' x"
    by (elim exE conjE)
  from g2 have g3: "\<exists>r\<in>set (fs_groups s1). group_key r = (Some ''g1'', ''c1'')"
    by (simp add: unified_group_key_def example_group_def)
  from conjunct2 [OF t] obtain s2 where
    a1: "saveToDb example_new_pk example_processFieldMappings example_processRemoteData
              ''c1'' ''lu1''
              ([example_attachment (Some ''a1'') ''cv.pdf''] @ example_attachment None ''letter.pdf''
                 # [])
              ''box'' [] None empty_db = (Inl ReferenceError, s2)"
    and a2: "keeps_attachments example_processFieldMappings example_processRemoteData \<longrightarrow>
         (\<forall>x\<in>set [example_attachment (Some ''a1'') ''cv.pdf'']. \<exists>r\<in>set (ats_candidate_attachments s2).
                attachment_key r = unified_attachment_key ''c1'' x)"
    by (elim exE conjE)
  from mp [OF a2 k] have a3: "\<exists>r\<in>set (ats_candidate_attachments s2).
      attachment_key r = (Some ''a1'', ''c1'')"
    by (simp add: unified_attachment_key_def example_attachment_def)
  from g1 g3 have G: "\<exists>s1. saveGroupsInDb ''c1'' ''lu1''
              ([example_group (Some ''g1'') ''Admins''] @ example_group (Some '''') ''Nobody''
                 # [example_group (Some ''g2'') ''Users''])
              ''box'' [] empty_db = (Inl ReferenceError, s1)
          \<and> (\<exists>r\<in>set (fs_groups s1). group_key r = (Some ''g1'', ''c1''))"
    by (intro exI [of _ s1] conjI)
  from a1 a3 have A: "\<exists>s1. saveToDb example_new_pk example_processFieldMappings
              example_processRemoteData ''c1'' ''lu1''
              ([example_attachment (Some ''a1'') ''cv.pdf''] @ example_attachment None ''letter.pdf''
                 # [])
              ''box'' [] None empty_db = (Inl ReferenceError, s1)
          \<and> (\<exists>r\<in>set (ats_candidate_attachments s1). attachment_key r = (Some ''a1'', ''c1''))"
    by (intro exI [of _ s2] conjI)
  have h1': "truthy_str (ug_remote_id (example_group (Some ''g1'') ''Admins''))"
    by (simp add: example_group_def truthy_str_def)
  have h3': "truthy_str (ua_remote_id (example_attachment (Some ''a1'') ''cv.pdf''))"
    by (simp add: example_attachment_def truthy_str_def)
  from h1' h2 h3' h4 k e G A show ?thesis by (intro conjI)
qed


section \<open>Properties of the group sync of a linked user\<close>

text \<open>
  Claim C5.  Without a connection of the linked user for the provider in the
  \<open>filestorage\<close> vertical, \<open>syncGroupsForLinkedUser\<close> returns and leaves the whole state
  as it is: no group, no event, no webhook.  With such a connection, a run that returns
  has saved the unified groups; after it the table of groups is as the save left it,
  the table of events has one more row, of type \<open>filestorage.group.pulled\<close> and status
  \<open>success\<close>, and the log of webhooks has one more call, whose payload is the rows the
  save returned and whose event is the new one.  The run returns whenever the provider's
  service and the unification return and every unified group has a non-empty
  \<open>remote_id\<close>.
\<close>

theorem syncGroupsForLinkedUser_webhook:
  "(find (\<lambda>c. cn_id_linked_user c = linkedUserId \<and> cn_provider_slug c = integrationId
               \<and> cn_vertical c = ''filestorage'') (connections s) = None \<longrightarrow>
      syncGroupsForLinkedUser getCustomFieldMappings service_syncGroups unify integrationId
        linkedUserId id_project s = (Inr (), s))
   \<and> (\<forall>connection s'.
        find (\<lambda>c. cn_id_linked_user c = linkedUserId \<and> cn_provider_slug c = integrationId
               \<and> cn_vertical c = ''filestorage'') (connections s) = Some connection
        \<and> syncGroupsForLinkedUser getCustomFieldMappings service_syncGroups unify integrationId
            linkedUserId id_project s = (Inr (), s') \<longrightarrow>
        (\<exists>sourceObject unifiedObject groups_data s1.
            service_syncGroups integrationId linkedUserId
              (map cfm_remote_id
                 (getCustomFieldMappings integrationId linkedUserId ''filestorage.group''))
              = Inr sourceObject
          \<and> unify sourceObject integrationId
              (getCustomFieldMappings integrationId linkedUserId ''filestorage.group'')
              = Inr unifiedObject
          \<and> saveGroupsInDb (cn_id_connection connection) linkedUserId unifiedObject integrationId
              sourceObject s = (Inr groups_data, s1)
          \<and> fs_groups s' = fs_groups s1
          \<and> events s' = events s @
              [\<lparr>id_event = uuid_stream s1 (uuid_next s1), ev_status = ''success'',
                ev_type = ''filestorage.group.pulled'', ev_method = ''PULL'', ev_url = ''/pull'',
                ev_provider = integrationId, ev_direction = ''0'',
                ev_timestamp = date_stream s1 (date_next s1), ev_id_linked_user = linkedUserId\<rparr>]
          \<and> webhooks s' = webhooks s @
              [\<lparr>wh_payload = groups_data, wh_type = ''filestorage.group.pulled'',
                wh_id_project = id_project, wh_id_event = uuid_stream s1 (uuid_next s1)\<rparr>]))
   \<and> (\<forall>connection sourceObject unifiedObject.
        find (\<lambda>c. cn_id_linked_user c = linkedUserId \<and> cn_provider_slug c = integrationId
               \<and> cn_vertical c = ''filestorage'') (connections s) = Some connection
        \<and> service_syncGroups integrationId linkedUserId
              (map cfm_remote_id
                 (getCustomFieldMappings integrationId linkedUserId ''filestorage.group''))
              = Inr sourceObject
        \<and> unify sourceObject integrationId
              (getCustomFieldMappings integrationId linkedUserId ''filestorage.group'')
              = Inr unifiedObject
        \<and> (\<forall>g\<in>set unifiedObject. truthy_str (ug_remote_id g)) \<longrightarrow>
        (\<exists>s'. syncGroupsForLinkedUser getCustomFieldMappings service_syncGroups unify integrationId
                 linkedUserId id_project s = (Inr (), s')))"
proof (intro conjI allI impI)
  assume "find (\<lambda>c. cn_id_linked_user c = linkedUserId \<and> cn_provider_slug c = integrationId
               \<and> cn_vertical c = ''filestorage'') (connections s) = None"
  then show "syncGroupsForLinkedUser getCustomFieldMappings service_syncGroups unify integrationId
        linkedUserId id_project s = (Inr (), s)"
    by (simp add: syncGroupsForLinkedUser_def)
next
  fix connection s'
  let ?cfm = "getCustomFieldMappings integrationId linkedUserId ''filestorage.group''"
  assume a: "find (\<lambda>c. cn_id_linked_user c = linkedUserId \<and> cn_provider_slug c = integrationId
               \<and> cn_vertical c = ''filestorage'') (connections s) = Some connection
        \<and> syncGroupsForLinkedUser getCustomFieldMappings service_syncGroups unify integrationId
            linkedUserId id_project s = (Inr (), s')"
  then have conn: "find (\<lambda>c. cn_id_linked_user c = linkedUserId \<and> cn_provider_slug c = integrationId
               \<and> cn_vertical c = ''filestorage'') (connections s) = Some connection"
    and run: "syncGroupsForLinkedUser getCustomFieldMappings service_syncGroups unify integrationId
            linkedUserId id_project s = (Inr (), s')" by simp_all
  from run conn obtain so where so: "service_syncGroups integrationId linkedUserId
      (map cfm_remote_id ?cfm) = Inr so"
    by (cases "service_syncGroups integrationId linkedUserId (map cfm_remote_id ?cfm)")
       (simp_all add: syncGroupsForLinkedUser_def Let_def)
  from run conn so obtain uo where uo: "unify so integrationId ?cfm = Inr uo"
    by (cases "unify so integrationId ?cfm")
       (simp_all add: syncGroupsForLinkedUser_def Let_def)
  obtain x s1 where sv: "saveGroupsInDb (cn_id_connection connection) linkedUserId uo integrationId
      so s = (x, s1)" by (cases "saveGroupsInDb (cn_id_connection connection) linkedUserId uo
      integrationId so s")
  from run conn so uo sv obtain gd where gd: "x = Inr gd"
    by (cases x) (simp_all add: syncGroupsForLinkedUser_def Let_def)
  note fr = saveGroupsInDb_frame [OF sv]
  from run conn so uo sv gd
  have s': "s' = s1\<lparr>uuid_next := Suc (uuid_next s1), date_next := Suc (date_next s1),
       events := events s1 @
              [\<lparr>id_event = uuid_stream s1 (uuid_next s1), ev_status = ''success'',
                ev_type = ''filestorage.group.pulled'', ev_method = ''PULL'', ev_url = ''/pull'',
                ev_provider = integrationId, ev_direction = ''0'',
                ev_timestamp = date_stream s1 (date_next s1), ev_id_linked_user = linkedUserId\<rparr>],
       webhooks := webhooks s1 @
              [\<lparr>wh_payload = gd, wh_type = ''filestorage.group.pulled'',
                wh_id_project = id_project, wh_id_event = uuid_stream s1 (uuid_next s1)\<rparr>]\<rparr>"
    by (simp add: syncGroupsForLinkedUser_def Let_def uuidv4_def new_Date_def)
  show "\<exists>sourceObject unifiedObject groups_data s1.
            service_syncGroups integrationId linkedUserId (map cfm_remote_id ?cfm) = Inr sourceObject
          \<and> unify sourceObject integrationId ?cfm = Inr unifiedObject
          \<and> saveGroupsInDb (cn_id_connection connection) linkedUserId unifiedObject integrationId
              sourceObject s = (Inr groups_data, s1)
          \<and> fs_groups s' = fs_groups s1
          \<and> events s' = events s @
              [\<lparr>id_event = uuid_stream s1 (uuid_next s1), ev_status = ''success'',
                ev_type = ''filestorage.group.pulled'', ev_method = ''PULL'', ev_url = ''/pull'',
                ev_provider = integrationId, ev_direction = ''0'',
                ev_timestamp = date_stream s1 (date_next s1), ev_id_linked_user = linkedUserId\<rparr>]
          \<and> webhooks s' = webhooks s @
              [\<lparr>wh_payload = groups_data, wh_type = ''filestorage.group.pulled'',
                wh_id_project = id_project, wh_id_event = uuid_stream s1 (uuid_next s1)\<rparr>]"
    using so uo sv gd fr
    by (intro exI [of _ so] exI [of _ uo] exI [of _ gd] exI [of _ s1] conjI)
       (simp_all add: s')
next
  fix connection sourceObject unifiedObject
  let ?cfm = "getCustomFieldMappings integrationId linkedUserId ''filestorage.group''"
  assume a: "find (\<lambda>c. cn_id_linked_user c = linkedUserId \<and> cn_provider_slug c = integrationId
               \<and> cn_vertical c = ''filestorage'') (connections s) = Some connection
        \<and> service_syncGroups integrationId linkedUserId (map cfm_remote_id ?cfm) = Inr sourceObject
        \<and> unify sourceObject integrationId ?cfm = Inr unifiedObject
        \<and> (\<forall>g\<in>set unifiedObject. truthy_str (ug_remote_id g))"
  then have tr: "\<forall>g\<in>set unifiedObject. truthy_str (ug_remote_id g)" by simp
  from saveGroupsInDb_ok [OF tr, of "cn_id_connection connection" linkedUserId integrationId
      sourceObject s]
  obtain rows s1 where "saveGroupsInDb (cn_id_connection connection) linkedUserId unifiedObject
      integrationId sourceObject s = (Inr rows, s1)" by blast
  with a show "\<exists>s'. syncGroupsForLinkedUser getCustomFieldMappings service_syncGroups unify
      integrationId linkedUserId id_project s = (Inr (), s')"
    by (simp add: syncGroupsForLinkedUser_def Let_def uuidv4_def new_Date_def)
qed

lemma sync_db_save:
  "map_sum id (map g_remote_id)
     (fst (saveGroupsInDb ''c1'' ''lu1'' [example_group (Some ''g1'') ''Admins''] ''box'' [''{}'']
             sync_db)) = Inr [Some ''g1'']
   \<and> map g_remote_id
       (fs_groups (snd (saveGroupsInDb ''c1'' ''lu1'' [example_group (Some ''g1'') ''Admins'']
                          ''box'' [''{}''] sync_db))) = [Some ''g1'']"
  by code_simp

theorem syncGroupsForLinkedUser_webhook_witness:
  "(\<exists>s'. syncGroupsForLinkedUser example_getCustomFieldMappings example_service_syncGroups
            example_unify ''box'' ''lu1'' ''p1'' sync_db = (Inr (), s')
        \<and> map g_remote_id (fs_groups s') = [Some ''g1'']
        \<and> (\<exists>w e. webhooks s' = [w] \<and> events s' = [e]
              \<and> map g_remote_id (wh_payload w) = [Some ''g1'']
              \<and> wh_type w = ''filestorage.group.pulled'' \<and> wh_id_project w = ''p1''
              \<and> wh_id_event w = id_event e
              \<and> ev_type e = ''filestorage.group.pulled'' \<and> ev_status e = ''success''))
   \<and> syncGroupsForLinkedUser example_getCustomFieldMappings example_service_syncGroups
        example_unify ''box'' ''lu2'' ''p1'' sync_db = (Inr (), sync_db)"
proof -
  let ?conn = "\<lparr>cn_id_connection = ''c1'', cn_id_linked_user = ''lu1'', cn_provider_slug = ''box'',
       cn_vertical = ''filestorage''\<rparr>"
  let ?g = "example_group (Some ''g1'') ''Admins''"
  note t = syncGroupsForLinkedUser_webhook [where getCustomFieldMappings = example_getCustomFieldMappings
      and service_syncGroups = example_service_syncGroups and unify = example_unify
      and integrationId = "''box''" and id_project = "''p1''" and s = sync_db]
  note t1 = t [where linkedUserId = "''lu1''"]
  note t2 = t [where linkedUserId = "''lu2''"]
  have conn: "find (\<lambda>c. cn_id_linked_user c = ''lu1'' \<and> cn_provider_slug c = ''box''
               \<and> cn_vertical c = ''filestorage'') (connections sync_db) = Some ?conn"
    by (simp add: sync_db_def empty_db_def)
  have none: "find (\<lambda>c. cn_id_linked_user c = ''lu2'' \<and> cn_provider_slug c = ''box''
               \<and> cn_vertical c = ''filestorage'') (connections sync_db) = None"
    by (simp add: sync_db_def empty_db_def)
  have ev: "events sync_db = []" "webhooks sync_db = []"
    by (simp_all add: sync_db_def empty_db_def)
  have N: "syncGroupsForLinkedUser example_getCustomFieldMappings example_service_syncGroups
        example_unify ''box'' ''lu2'' ''p1'' sync_db = (Inr (), sync_db)"
    by (rule mp [OF conjunct1 [OF t2] none])
  have hyp: "find (\<lambda>c. cn_id_linked_user c = ''lu1'' \<and> cn_provider_slug c = ''box''
               \<and> cn_vertical c = ''filestorage'') (connections sync_db) = Some ?conn
        \<and> example_service_syncGroups ''box'' ''lu1''
              (map cfm_remote_id (example_getCustomFieldMappings ''box'' ''lu1'' ''filestorage.group''))
              = Inr [''{}'']
        \<and> example_unify [''{}''] ''box''
              (example_getCustomFieldMappings ''box'' ''lu1'' ''filestorage.group'')
              = Inr [?g]
        \<and> (\<forall>g\<in>set [?g]. truthy_str (ug_remote_id g))"
    using conn
    by (simp add: example_service_syncGroups_def example_unify_def example_group_def truthy_str_def)
  from mp [OF spec [OF spec [OF spec [OF conjunct2 [OF conjunct2 [OF t1]]]]] hyp]
  obtain s' where run: "syncGroupsForLinkedUser example_getCustomFieldMappings
      example_service_syncGroups example_unify ''box'' ''lu1'' ''p1'' sync_db = (Inr (), s')" ..
  from conn run have cr: "find (\<lambda>c. cn_id_linked_user c = ''lu1'' \<and> cn_provider_slug c = ''box''
               \<and> cn_vertical c = ''filestorage'') (connections sync_db) = Some ?conn
        \<and> syncGroupsForLinkedUser example_getCustomFieldMappings
      example_service_syncGroups example_unify ''box'' ''lu1'' ''p1'' sync_db = (Inr (), s')"
    by (rule conjI)
  from mp [OF spec [OF spec [OF conjunct1 [OF conjunct2 [OF t1]]]] cr]
  obtain so uo gd s1 where r:
      "example_service_syncGroups ''box'' ''lu1''
              (map cfm_remote_id (example_getCustomFieldMappings ''box'' ''lu1'' ''filestorage.group''))
              = Inr so"
      "example_unify so ''box'' (example_getCustomFieldMappings ''box'' ''lu1'' ''filestorage.group'')
              = Inr uo"
      "saveGroupsInDb (cn_id_connection ?conn) ''lu1'' uo ''box'' so sync_db = (Inr gd, s1)"
      "fs_groups s' = fs_groups s1"
      "events s' = events sync_db @
              [\<lparr>id_event = uuid_stream s1 (uuid_next s1), ev_status = ''success'',
                ev_type = ''filestorage.group.pulled'', ev_method = ''PULL'', ev_url = ''/pull'',
                ev_provider = ''box'', ev_direction = ''0'',
                ev_timestamp = date_stream s1 (date_next s1), ev_id_linked_user = ''lu1''\<rparr>]"
      "webhooks s' = webhooks sync_db @
              [\<lparr>wh_payload = gd, wh_type = ''filestorage.group.pulled'',
                wh_id_project = ''p1'', wh_id_event = uuid_stream s1 (uuid_next s1)\<rparr>]"
    by (elim exE conjE)
  from r(1) have so: "so = [''{}'']" by (simp add: example_service_syncGroups_def)
  from r(2) have uo: "uo = [?g]" by (simp add: example_unify_def)
  from r(3) have sv: "saveGroupsInDb ''c1'' ''lu1'' [?g] ''box'' [''{}''] sync_db = (Inr gd, s1)"
    by (simp add: so uo)
  from sync_db_save have p: "map g_remote_id gd = [Some ''g1'']"
    and f: "map g_remote_id (fs_groups s1) = [Some ''g1'']"
    unfolding sv by simp_all
  let ?w = "\<lparr>wh_payload = gd, wh_type = ''filestorage.group.pulled'',
                wh_id_project = ''p1'', wh_id_event = uuid_stream s1 (uuid_next s1)\<rparr>"
  let ?e = "\<lparr>id_event = uuid_stream s1 (uuid_next s1), ev_status = ''success'',
                ev_type = ''filestorage.group.pulled'', ev_method = ''PULL'', ev_url = ''/pull'',
                ev_provider = ''box'', ev_direction = ''0'',
                ev_timestamp = date_stream s1 (date_next s1), ev_id_linked_user = ''lu1''\<rparr>"
  have W: "\<exists>w e. webhooks s' = [w] \<and> events s' = [e]
              \<and> map g_remote_id (wh_payload w) = [Some ''g1'']
              \<and> wh_type w = ''filestorage.group.pulled'' \<and> wh_id_project w = ''p1''
              \<and> wh_id_event w = id_event e
              \<and> ev_type e = ''filestorage.group.pulled'' \<and> ev_status e = ''success''"
    using r(5,6) p ev
    by (intro exI [of _ ?w] exI [of _ ?e] conjI) simp_all
  from f r(4) have F: "map g_remote_id (fs_groups s') = [Some ''g1'']" by simp
  from run F W have "\<exists>s'. syncGroupsForLinkedUser example_getCustomFieldMappings
            example_service_syncGroups example_unify ''box'' ''lu1'' ''p1'' sync_db = (Inr (), s')
        \<and> map g_remote_id (fs_groups s') = [Some ''g1'']
        \<and> (\<exists>w e. webhooks s' = [w] \<and> events s' = [e]
              \<and> map g_remote_id (wh_payload w) = [Some ''g1'']
              \<and> wh_type w = ''filestorage.group.pulled'' \<and> wh_id_project w = ''p1''
              \<and> wh_id_event w = id_event e
              \<and> ev_type e = ''filestorage.group.pulled'' \<and> ev_status e = ''success'')"
    by (intro exI [of _ s'] conjI)
  then show ?thesis using N by (rule conjI)
qed

end
